theory Spec2Isabelle
  imports Complex_Main "HOL-Library.Word"
begin

unbundle bit_operations_syntax


section \<open>Overview\<close>

text \<open>
  A model of the baseline JPEG decoder and the properties of it that its specification
  states: the bit source with byte stuffing, the construction of a Huffman tree and the
  decoding of a symbol, the parser of the frame header and of the scan with its MCU
  loops, dequantization, the inverse DCT with the level shift, and the colour conversion.

  Every function of the program is a function here, with the state it changes passed in
  and out: the bit reader is a record, and a result is \<open>Inl\<close> of an error or \<open>Inr\<close> of a
  value. Unsigned and signed 8- and 16-bit integers are words, read with \<open>uint\<close>, \<open>unat\<close>
  or \<open>sint\<close>; arithmetic that C++ does in \<^verbatim>\<open>int\<close> is done in the integers, where it cannot
  overflow for operands of these widths.

  The program exists in variants that differ in data structures but not in the parsing
  and decoding logic modelled here. The definitions follow the variant with the
  table-driven zig-zag order, the array of optional Huffman trees and the fixed-point
  colour conversion; where the other variant differs, the text says so.
\<close>

section \<open>Errors\<close>

text \<open>
  Every \<^verbatim>\<open>throw\<close> of the decoder is a constructor named after its message;
  \<open>Bad_optional_access\<close> is the exception of \<^verbatim>\<open>std::optional::value\<close>. The last
  constructor is not an exception of the program: it marks a read of a vector past its
  end, which C++ leaves undefined.
\<close>

datatype error =
    Cannot_multiply_on_quantum_matrix
  | Channels_is_empty
  | Trying_to_read_many_bytes
  | EOF
  | Encountered_marker_instead_of_0xFF
  | Bits_not_aligned
  | State_is_nullptr
  | Too_small_code_lengths_sum
  | Too_big_code_length
  | Something_went_wrong_in_node_adding
  | Too_big_code_length_sum
  | No_meta_for_channel
  | Channels_size
  | Too_little_comment_section_size
  | Empty_ac_coef
  | Too_many_blocks_in_matrix
  | Too_little_image_metadata_size
  | Empty_image
  | Bad_metadata_size
  | No_info_about_channels_cnt
  | Bad_image_data_size
  | No_huffman_table_found
  | Bad_SOS_header
  | Inconsistent_SOS_for_baseline_JPEG
  | Sampling_factor_is_zero
  | Bad_block_size_for_zig_zag
  | No_metadata_before_reading_image_data
  | Bad_optional_access
  | Input_output_sz_is_not_width_times_width
  | Out_of_bounds_read nat

section \<open>Dequantization: \<^verbatim>\<open>Mult\<close>\<close>

text \<open>
  \<^verbatim>\<open>one[i] *= two[i]\<close> with \<^verbatim>\<open>int16_t one[i]\<close> and \<^verbatim>\<open>uint16_t two[i]\<close>: both operands are
  promoted to \<^verbatim>\<open>int\<close>, where the product cannot overflow, and the product is converted
  back to \<^verbatim>\<open>int16_t\<close>.
\<close>

definition mul_assign :: "16 word \<Rightarrow> 16 word \<Rightarrow> 16 word" where
  "mul_assign a q = word_of_int (sint a * uint q)"

function Mult_loop :: "nat \<Rightarrow> 16 word list \<Rightarrow> 16 word list \<Rightarrow> 16 word list" where
  "Mult_loop i one two =
     (if i < length one
      then Mult_loop (i + 1) (one[i := mul_assign (one ! i) (two ! i)]) two
      else one)"
  by pat_completeness auto
termination
  by (relation "measure (\<lambda>(i, one, two). length one - i)") auto

declare Mult_loop.simps [simp del]

definition Mult :: "16 word list \<Rightarrow> 16 word list \<Rightarrow> error + 16 word list" where
  "Mult one two =
     (if length one \<noteq> length two then Inl Cannot_multiply_on_quantum_matrix
      else Inr (Mult_loop 0 one two))"

section \<open>Colour conversion: \<^verbatim>\<open>YCbCrToRGB\<close>\<close>

record RGB =
  rgb_r :: "8 word"
  rgb_g :: "8 word"
  rgb_b :: "8 word"

text \<open>
  The fixed-point conversion. The channel samples are \<^verbatim>\<open>int16_t\<close> and the arithmetic is done
  in \<^verbatim>\<open>int\<close>; for 16-bit inputs no intermediate value leaves the 32-bit range, so the
  mathematical integers are used. \<^verbatim>\<open><< 10\<close> is \<open>push_bit 10\<close> and the arithmetic
  \<^verbatim>\<open>>> 10\<close> is \<open>drop_bit 10\<close>, which rounds towards minus infinity.
\<close>

definition clamp8 :: "int \<Rightarrow> 8 word" where
  "clamp8 v_fp =
     (let v = drop_bit 10 v_fp
      in if v < 0 then 0 else if v > 255 then 255 else word_of_int v)"

definition YCbCrToRGB :: "16 word list \<Rightarrow> error + RGB" where
  "YCbCrToRGB channels =
     (if channels = [] then Inl Channels_is_empty
      else
        let y = push_bit 10 (sint (channels ! 0));
            cb = (if length channels > 1 then sint (channels ! 1) - 128 else 0);
            cr = (if length channels > 2 then sint (channels ! 2) - 128 else 0);
            r_ans = y + 1402 * cr;
            g_ans = y - 344 * cb - 714 * cr;
            b_fp = y + 1772 * cb
        in Inr \<lparr>rgb_r = clamp8 r_ans, rgb_g = clamp8 g_ans, rgb_b = clamp8 b_fp\<rparr>)"

text \<open>
  The floating-point reference of the specification, which is also the conversion of the
  baseline variant: \<open>R = Y + 1.402 (Cr - 128)\<close>,
  \<open>G = Y - 0.344136 (Cb - 128) - 0.714136 (Cr - 128)\<close>, \<open>B = Y + 1.772 (Cb - 128)\<close>,
  each clamped to \<open>[0, 255]\<close> and rounded to the nearest integer. It is stated in exact
  real arithmetic. On the clamped, non-negative value rounding half away from zero
  (\<^verbatim>\<open>llround\<close>) is \<open>\<lfloor>x + 1/2\<rfloor>\<close>.
\<close>

definition round_clamp_reference :: "real \<Rightarrow> int" where
  "round_clamp_reference x = \<lfloor>max 0 (min 255 x) + 1 / 2\<rfloor>"

definition YCbCrToRGB_reference :: "16 word list \<Rightarrow> error + int \<times> int \<times> int" where
  "YCbCrToRGB_reference channels =
     (if channels = [] then Inl Channels_is_empty
      else
        let y = real_of_int (sint (channels ! 0));
            cb = (if length channels > 1 then real_of_int (sint (channels ! 1)) else 128);
            cr = (if length channels > 2 then real_of_int (sint (channels ! 2)) else 128);
            r = y + 1402 / 1000 * (cr - 128);
            g = y - 344136 / 1000000 * (cb - 128) - 714136 / 1000000 * (cr - 128);
            b = y + 1772 / 1000 * (cb - 128)
        in Inr (round_clamp_reference r, round_clamp_reference g, round_clamp_reference b))"

section \<open>The bit source: \<^verbatim>\<open>BitReader\<close>\<close>

text \<open>
  The fields \<open>in_stream\<close>, \<open>buffer\<close> and \<open>buffer_size\<close> are the members \<^verbatim>\<open>in_\<close>,
  \<^verbatim>\<open>buffer_\<close> and \<^verbatim>\<open>buffer_size_\<close>. The input stream is the list of bytes not yet
  extracted. An extraction from the empty list is the failed \<^verbatim>\<open>read\<close> of the stream; the
  list stays empty, as the stream stays failed.
\<close>

record BitReader =
  in_stream :: "8 word list"
  buffer :: "8 word"
  buffer_size :: nat

definition bindE :: "error + 'a \<Rightarrow> ('a \<Rightarrow> error + 'b) \<Rightarrow> error + 'b" where
  "bindE m f = (case m of Inl e \<Rightarrow> Inl e | Inr x \<Rightarrow> f x)"

text \<open>
  The body of \<^verbatim>\<open>if (buffer_size_ == 0)\<close> in \<^verbatim>\<open>ReadBits\<close>: one byte is extracted into
  the buffer; after a byte \<^verbatim>\<open>0xff\<close> one more byte is extracted, and the call throws unless
  that extraction succeeds with the byte \<^verbatim>\<open>0x00\<close>.
\<close>

definition refill :: "BitReader \<Rightarrow> error + BitReader" where
  "refill s =
     (case in_stream s of
        [] \<Rightarrow> Inl EOF
      | tmp # rest \<Rightarrow>
          if tmp = 0xff
          then (case rest of
                  [] \<Rightarrow> Inl Encountered_marker_instead_of_0xFF
                | next_char # rest' \<Rightarrow>
                    if next_char \<noteq> 0x00 then Inl Encountered_marker_instead_of_0xFF
                    else Inr (s\<lparr>in_stream := rest', buffer := tmp, buffer_size := 8\<rparr>))
          else Inr (s\<lparr>in_stream := rest, buffer := tmp, buffer_size := 8\<rparr>))"

text \<open>
  \<^verbatim>\<open>result <<= 1u; result |= (buffer_ >> 7) & 1; --buffer_size_; buffer_ <<= 1u;\<close>
\<close>

definition take_bit_from_buffer :: "16 word \<Rightarrow> BitReader \<Rightarrow> 16 word \<times> BitReader" where
  "take_bit_from_buffer result s =
     (push_bit 1 result OR (ucast (drop_bit 7 (buffer s)) AND 1),
      s\<lparr>buffer_size := buffer_size s - 1, buffer := push_bit 1 (buffer s)\<rparr>)"

text \<open>
  The loop \<^verbatim>\<open>while (bits_cnt-- > 0)\<close>, by recursion on the count; the \<^verbatim>\<open>uint8_t\<close> count
  is a natural number.
\<close>

fun ReadBits_loop :: "nat \<Rightarrow> 16 word \<Rightarrow> BitReader \<Rightarrow> error + 16 word \<times> BitReader" where
  "ReadBits_loop 0 result s = Inr (result, s)"
| "ReadBits_loop (Suc bits_cnt) result s =
     bindE (if buffer_size s = 0 then refill s else Inr s)
       (\<lambda>s1. case take_bit_from_buffer result s1 of
                (result', s2) \<Rightarrow> ReadBits_loop bits_cnt result' s2)"

definition ReadBits :: "nat \<Rightarrow> BitReader \<Rightarrow> error + 16 word \<times> BitReader" where
  "ReadBits bits_cnt s =
     (if bits_cnt > 16 then Inl Trying_to_read_many_bytes
      else ReadBits_loop bits_cnt 0 s)"

text \<open>
  \<^verbatim>\<open>ReadBitsSigned\<close>: the value read is kept when its top bit is set, and lowered by
  \<open>2 ^ bits_cnt - 1\<close> otherwise; the result is converted to \<^verbatim>\<open>int16_t\<close>.
\<close>

definition ReadBitsSigned :: "nat \<Rightarrow> BitReader \<Rightarrow> error + 16 word \<times> BitReader" where
  "ReadBitsSigned bits_cnt s =
     (if bits_cnt = 0 then Inr (0, s)
      else bindE (ReadBits bits_cnt s)
             (\<lambda>(v, s').
                if bit v (bits_cnt - 1) then Inr (v, s')
                else Inr (word_of_int (uint v - (2 ^ bits_cnt - 1)), s')))"

text \<open>
  \<^verbatim>\<open>ReadByte\<close> does not test the stream after its \<^verbatim>\<open>read\<close>. When the extraction fails the
  local \<^verbatim>\<open>char data\<close> has not been written, and its indeterminate content is returned:
  the parameter \<open>junk\<close> stands for that content.
\<close>

definition ReadByte :: "8 word \<Rightarrow> BitReader \<Rightarrow> error + 8 word \<times> BitReader" where
  "ReadByte junk s =
     (if buffer_size s \<noteq> 0 then Inl Bits_not_aligned
      else case in_stream s of
             [] \<Rightarrow> Inr (junk, s)
           | data # rest \<Rightarrow> Inr (data, s\<lparr>in_stream := rest\<rparr>))"

definition ReadWord :: "8 word \<Rightarrow> BitReader \<Rightarrow> error + 16 word \<times> BitReader" where
  "ReadWord junk s =
     bindE (ReadByte junk s) (\<lambda>(hi, s1).
     bindE (ReadByte junk s1) (\<lambda>(lo, s2).
       Inr (push_bit 8 (0 OR ucast hi) OR ucast lo, s2)))"

definition Align :: "BitReader \<Rightarrow> BitReader" where
  "Align s = s\<lparr>buffer_size := 0, buffer := 0\<rparr>"

subsection \<open>Byte stuffing and the reader it is compared with\<close>

text \<open>
  \<open>stuff\<close> writes a payload as entropy-coded data: the byte \<^verbatim>\<open>00\<close> is inserted after
  every byte \<^verbatim>\<open>FF\<close>. \<open>restuff\<close> applies it to the bytes a reader has not yet extracted.
\<close>

definition stuff :: "8 word list \<Rightarrow> 8 word list" where
  "stuff bs = concat (map (\<lambda>b. if b = 0xff then [0xff, 0x00] else [b]) bs)"

definition restuff :: "BitReader \<Rightarrow> BitReader" where
  "restuff s = s\<lparr>in_stream := stuff (in_stream s)\<rparr>"

text \<open>
  The reader of the specification's comparison, "as if only \<^verbatim>\<open>FF\<close> were present": it
  takes the bits of the payload bytes as they are, with no byte-stuffing rule. It is not
  part of the program.
\<close>

definition refill_plain :: "BitReader \<Rightarrow> error + BitReader" where
  "refill_plain s =
     (case in_stream s of
        [] \<Rightarrow> Inl EOF
      | tmp # rest \<Rightarrow> Inr (s\<lparr>in_stream := rest, buffer := tmp, buffer_size := 8\<rparr>))"

fun ReadBits_plain_loop ::
  "nat \<Rightarrow> 16 word \<Rightarrow> BitReader \<Rightarrow> error + 16 word \<times> BitReader" where
  "ReadBits_plain_loop 0 result s = Inr (result, s)"
| "ReadBits_plain_loop (Suc bits_cnt) result s =
     bindE (if buffer_size s = 0 then refill_plain s else Inr s)
       (\<lambda>s1. case take_bit_from_buffer result s1 of
                (result', s2) \<Rightarrow> ReadBits_plain_loop bits_cnt result' s2)"

definition ReadBits_plain :: "nat \<Rightarrow> BitReader \<Rightarrow> error + 16 word \<times> BitReader" where
  "ReadBits_plain bits_cnt s =
     (if bits_cnt > 16 then Inl Trying_to_read_many_bytes
      else ReadBits_plain_loop bits_cnt 0 s)"

section \<open>The Huffman codebook: \<^verbatim>\<open>HuffmanTree\<close>\<close>

text \<open>
  A \<^verbatim>\<open>std::shared_ptr<Node>\<close> is either null or points to a node with the members
  \<^verbatim>\<open>is_terminal\<close>, \<^verbatim>\<open>value\<close>, \<^verbatim>\<open>left\<close> and \<^verbatim>\<open>right\<close>, in this order.
\<close>

datatype Node = nullptr | Node bool "8 word option" Node Node

lemma bindE_cong [fundef_cong]:
  "m = m' \<Longrightarrow> (\<And>x. m' = Inr x \<Longrightarrow> f x = f' x) \<Longrightarrow> bindE m f = bindE m' f'"
  by (cases m') (simp_all add: bindE_def)

text \<open>
  \<^verbatim>\<open>AddNodeImpl\<close> returns its \<^verbatim>\<open>bool\<close> together with the subtree as the call leaves it:
  children allocated on the way stay allocated when the call returns \<^verbatim>\<open>false\<close>. The
  parameter \<^verbatim>\<open>code_length\<close> is a \<^verbatim>\<open>uint8_t\<close>, so \<^verbatim>\<open>code_length - 1\<close> wraps from 0 to 255.
  The function is never called on a null pointer: \<^verbatim>\<open>AddNode\<close> passes \<^verbatim>\<open>root_\<close>, which
  \<^verbatim>\<open>Reset\<close> has allocated, and every recursive call passes a child that has just been
  tested or allocated.
\<close>

lemma AddNodeImpl_measure:
  assumes "code_length \<noteq> 1"
  shows "(if code_length - 1 = 0 then 256 else unat (code_length - 1))
           < (if code_length = 0 then 256 else unat (code_length :: 8 word))"
proof (cases "code_length = 0")
  case True
  have "unat (- 1 :: 8 word) < 2 ^ LENGTH(8)" by (rule unsigned_less)
  with True show ?thesis by simp
next
  case False
  from assms have "code_length - 1 \<noteq> 0" by simp
  moreover have "unat (code_length - 1) = unat code_length - 1"
    using False by (rule unat_minus_one)
  moreover have "0 < unat code_length" using False by (simp add: unat_gt_0)
  ultimately show ?thesis using False by simp
qed

function AddNodeImpl :: "8 word \<Rightarrow> 8 word \<Rightarrow> Node \<Rightarrow> bool \<times> Node" where
  "AddNodeImpl code_length v nullptr = (False, nullptr)"
| "AddNodeImpl code_length v (Node t x l r) =
     (if t then (False, Node t x l r)
      else if code_length = 1 then
        (if l = nullptr then (True, Node t x (Node True (Some v) nullptr nullptr) r)
         else if r = nullptr then (True, Node t x l (Node True (Some v) nullptr nullptr))
         else (False, Node t x l r))
      else
        (let l0 = (if l = nullptr then Node False None nullptr nullptr else l) in
         case AddNodeImpl (code_length - 1) v l0 of
           (ok_l, l1) \<Rightarrow>
             if ok_l then (True, Node t x l1 r)
             else
               (let r0 = (if r = nullptr then Node False None nullptr nullptr else r) in
                case AddNodeImpl (code_length - 1) v r0 of
                  (ok_r, r1) \<Rightarrow> (ok_r, Node t x l1 r1))))"
  by pat_completeness auto
termination
  by (relation "measure (\<lambda>(code_length, v, now).
                   if code_length = 0 then 256 else unat code_length)")
     (simp_all only: in_measure prod.case wf_measure, (rule AddNodeImpl_measure, assumption)+)

declare AddNodeImpl.simps [simp del]

text \<open>
  The loop \<^verbatim>\<open>while (code_lengths_new[now_length - 1] == 0 && now_length <= code_lengths.size())\<close>
  of \<^verbatim>\<open>Build\<close>. The element is read before the bound is tested; a read at or past the
  end of the vector is undefined in C++ and is the outcome \<open>Out_of_bounds_read\<close> here.
  \<^verbatim>\<open>code_lengths_new\<close> is a copy of \<^verbatim>\<open>code_lengths\<close> and keeps its size.
\<close>

function skip_empty_lengths :: "8 word list \<Rightarrow> 8 word list \<Rightarrow> nat \<Rightarrow> error + nat" where
  "skip_empty_lengths code_lengths code_lengths_new now_length =
     (if \<not> now_length - 1 < length code_lengths_new
      then Inl (Out_of_bounds_read (now_length - 1))
      else if code_lengths_new ! (now_length - 1) = 0 \<and> now_length \<le> length code_lengths
      then skip_empty_lengths code_lengths code_lengths_new (now_length + 1)
      else Inr now_length)"
  by pat_completeness auto
termination
  by (relation "measure (\<lambda>(code_lengths, code_lengths_new, now_length).
                   length code_lengths + 1 - now_length)") auto

declare skip_empty_lengths.simps [simp del]

text \<open>
  The body of \<^verbatim>\<open>for (const uint8_t value : values)\<close>, by recursion on the values. The
  other variant of \<^verbatim>\<open>Build\<close> has the same loops; after the inner loop it makes the single
  test \<^verbatim>\<open>now_length > std::min<size_t>(16, code_lengths.size())\<close>, which throws "Too big
  code length".
\<close>

fun Build_values ::
  "8 word list \<Rightarrow> 8 word list \<Rightarrow> 8 word list \<Rightarrow> nat \<Rightarrow> Node \<Rightarrow> error + 8 word list \<times> Node"
where
  "Build_values code_lengths [] code_lengths_new now_length root_node = Inr (code_lengths_new, root_node)"
| "Build_values code_lengths (v # values) code_lengths_new now_length root_node =
     bindE (skip_empty_lengths code_lengths code_lengths_new now_length) (\<lambda>now_length.
       if now_length > length code_lengths then Inl Too_small_code_lengths_sum
       else if now_length > 16 then Inl Too_big_code_length
       else
         case AddNodeImpl (of_nat now_length) v root_node of
           (ok, root_node') \<Rightarrow>
             if \<not> ok then Inl Something_went_wrong_in_node_adding
             else Build_values code_lengths values
                    (code_lengths_new[now_length - 1 := code_lengths_new ! (now_length - 1) - 1])
                    now_length root_node')"

text \<open>
  \<^verbatim>\<open>Build\<close> returns the root of the tree. \<^verbatim>\<open>std::reduce\<close> over a vector of \<^verbatim>\<open>uint8_t\<close>
  accumulates in \<^verbatim>\<open>uint8_t\<close>, so the final sum is taken modulo 256.
\<close>

definition Build :: "8 word list \<Rightarrow> 8 word list \<Rightarrow> error + Node" where
  "Build code_lengths values =
     bindE (Build_values code_lengths values code_lengths 1 (Node False None nullptr nullptr))
       (\<lambda>(code_lengths_new, root_node).
          if (sum_list code_lengths_new :: 8 word) > 0 then Inl Too_big_code_length_sum
          else Inr root_node)"

subsection \<open>Decoding one symbol\<close>

text \<open>
  \<^verbatim>\<open>Move\<close>, with its argument \<^verbatim>\<open>bit\<close> as \<open>b\<close> and the members \<^verbatim>\<open>root_\<close> and \<^verbatim>\<open>state_\<close>
  as arguments. The result is the new \<^verbatim>\<open>state_\<close>, together with the decoded value when
  the C++ function returns \<^verbatim>\<open>true\<close> and with \<open>None\<close> when it returns \<^verbatim>\<open>false\<close>.
\<close>

definition Move :: "bool \<Rightarrow> Node \<Rightarrow> Node \<Rightarrow> error + 8 word option \<times> Node" where
  "Move b root_node state =
     (case state of
        nullptr \<Rightarrow> Inl State_is_nullptr
      | Node t x l r \<Rightarrow>
          (let need = (if \<not> b then l else r) in
           case need of
             nullptr \<Rightarrow> Inr (None, need)
           | Node is_terminal val l' r' \<Rightarrow>
               if \<not> is_terminal then Inr (None, need)
               else (case val of
                       None \<Rightarrow> Inl Bad_optional_access
                     | Some a \<Rightarrow> Inr (Some a, root_node))))"

lemma Move_descends: "Move b root_node state = Inr (None, state') \<Longrightarrow> size state' < size state"
  by (cases state) (auto simp: Move_def Let_def split: Node.splits if_splits option.splits)

text \<open>
  \<^verbatim>\<open>while (!tree->Move(bit_reader_.ReadBits(), ans)) {}\<close>: the bit is read before \<^verbatim>\<open>Move\<close>
  looks at \<^verbatim>\<open>state_\<close>.
\<close>

function ReadFromHuffmanTree_loop ::
  "Node \<Rightarrow> Node \<Rightarrow> BitReader \<Rightarrow> error + 8 word \<times> BitReader" where
  "ReadFromHuffmanTree_loop root_node state s =
     bindE (ReadBits 1 s) (\<lambda>(one_bit, s').
     bindE (Move (one_bit \<noteq> 0) root_node state) (\<lambda>(ans, state').
       case ans of
         Some a \<Rightarrow> Inr (a, s')
       | None \<Rightarrow> ReadFromHuffmanTree_loop root_node state' s'))"
  by pat_completeness auto
termination
  by (relation "measure (\<lambda>(root_node, state, s). size state)") (auto dest: Move_descends)

declare ReadFromHuffmanTree_loop.simps [simp del]

text \<open>
  Between two calls \<^verbatim>\<open>state_\<close> is \<^verbatim>\<open>root_\<close>: \<^verbatim>\<open>Reset\<close> sets it so and every \<^verbatim>\<open>Move\<close> that
  returns \<^verbatim>\<open>true\<close> restores it.
\<close>

definition ReadFromHuffmanTree :: "Node \<Rightarrow> BitReader \<Rightarrow> error + 8 word \<times> BitReader" where
  "ReadFromHuffmanTree tree s = ReadFromHuffmanTree_loop tree tree s"

section \<open>The segment parser: \<^verbatim>\<open>Parser\<close>\<close>

text \<open>
  The members \<^verbatim>\<open>h\<close> and \<^verbatim>\<open>v\<close> of \<^verbatim>\<open>ChannelMetadata\<close> are the fields \<open>ch_h\<close> and \<open>ch_v\<close>.
\<close>

record ChannelMetadata =
  channel_id :: "8 word"
  ch_h :: "8 word"
  ch_v :: "8 word"
  quant_id :: "8 word"

record ImageMetadata =
  precision :: "8 word"
  channels_cnt :: "8 word"
  height :: "16 word"
  width :: "16 word"
  channels :: "ChannelMetadata list"

record ImageData =
  channel_matrix :: "16 word list list list"
  channel_ids :: "8 word list"
  mcu_h :: "16 word"
  mcu_w :: "16 word"

text \<open>A counting loop \<^verbatim>\<open>for (i = i0; i < n; ++i)\<close> whose body may throw.\<close>

function for_loop :: "nat \<Rightarrow> nat \<Rightarrow> (nat \<Rightarrow> 's \<Rightarrow> error + 's) \<Rightarrow> 's \<Rightarrow> error + 's" where
  "for_loop i n body st =
     (if i < n then bindE (body i st) (\<lambda>st'. for_loop (i + 1) n body st') else Inr st)"
  by pat_completeness auto
termination
  by (relation "measure (\<lambda>(i, n, body, st). n - i)") auto

declare for_loop.simps [simp del]

definition GetPairHash :: "8 word \<Rightarrow> bool \<Rightarrow> 16 word" where
  "GetPairHash a b = push_bit 1 (ucast a) OR (if b then 1 else 0)"

definition GetMetaByChannelId :: "ImageMetadata \<Rightarrow> 8 word \<Rightarrow> error + ChannelMetadata" where
  "GetMetaByChannelId meta cid =
     (case find (\<lambda>c. channel_id c = cid) (channels meta) of
        None \<Rightarrow> Inl No_meta_for_channel
      | Some c \<Rightarrow> Inr c)"

definition kZigZagMap :: "nat list" where
  "kZigZagMap =
     [0,  1,  5,  6,  14, 15, 27, 28, 2,  4,  7,  13, 16, 26, 29, 42, 3,  8,  12, 17, 25, 30,
      41, 43, 9,  11, 18, 24, 31, 40, 44, 53, 10, 19, 23, 32, 39, 45, 52, 54, 20, 22, 33, 38,
      46, 51, 55, 60, 21, 34, 37, 47, 50, 56, 59, 61, 35, 36, 48, 49, 57, 58, 62, 63]"

definition GetZigZag :: "'a list \<Rightarrow> error + 'a list" where
  "GetZigZag data =
     (if length data \<noteq> 64 then Inl Bad_block_size_for_zig_zag
      else Inr (map (\<lambda>i. data ! (kZigZagMap ! i)) [0..<64]))"

definition ReadSz :: "8 word \<Rightarrow> BitReader \<Rightarrow> error + 16 word \<times> BitReader" where
  "ReadSz junk s =
     bindE (ReadWord junk s) (\<lambda>(sz, s).
       if sz < 2 then Inl Too_little_comment_section_size else Inr (sz - 2, s))"

subsection \<open>The frame header: \<^verbatim>\<open>ReadImageMeta\<close>\<close>

text \<open>The body of the loop over the channels of the frame header.\<close>

definition read_channel_info ::
  "8 word \<Rightarrow> nat \<Rightarrow> ChannelMetadata list \<times> BitReader \<Rightarrow>
   error + ChannelMetadata list \<times> BitReader" where
  "read_channel_info junk c = (\<lambda>(channels_info, s).
     bindE (ReadByte junk s) (\<lambda>(cid, s).
     bindE (ReadByte junk s) (\<lambda>(hv, s).
     bindE (ReadByte junk s) (\<lambda>(qid, s).
       Inr (channels_info @
              [\<lparr>channel_id = cid, ch_h = drop_bit 4 hv, ch_v = hv AND 0xf, quant_id = qid\<rparr>],
            s)))))"

text \<open>
  The constructor of \<^verbatim>\<open>ImageMetadata\<close> stores its arguments and throws when the channel
  count differs from the number of channels.
\<close>

definition new_ImageMetadata ::
  "8 word \<Rightarrow> 8 word \<Rightarrow> 16 word \<Rightarrow> 16 word \<Rightarrow> ChannelMetadata list \<Rightarrow> error + ImageMetadata"
where
  "new_ImageMetadata p cnt hgt wdt chs =
     (if unat cnt \<noteq> length chs then Inl Channels_size
      else Inr \<lparr>precision = p, channels_cnt = cnt, height = hgt, width = wdt, channels = chs\<rparr>)"

definition ReadImageMeta :: "8 word \<Rightarrow> BitReader \<Rightarrow> error + ImageMetadata \<times> BitReader" where
  "ReadImageMeta junk s =
     bindE (ReadSz junk s) (\<lambda>(sz, s).
     if sz < 6 then Inl Too_little_image_metadata_size
     else
       let sz = sz - 6 in
       bindE (ReadByte junk s) (\<lambda>(p, s).
       bindE (ReadWord junk s) (\<lambda>(hgt, s).
       bindE (ReadWord junk s) (\<lambda>(wdt, s).
       bindE (ReadByte junk s) (\<lambda>(cnt, s).
         if hgt = 0 \<or> wdt = 0 then Inl Empty_image
         else if uint sz \<noteq> uint cnt * 3 then Inl Bad_metadata_size
         else
           bindE (for_loop 0 (unat cnt) (read_channel_info junk) ([], s))
             (\<lambda>(channels_info, s).
                bindE (new_ImageMetadata p cnt hgt wdt channels_info) (\<lambda>meta.
                  Inr (meta, s))))))))"

subsection \<open>One block: \<^verbatim>\<open>ReadBlock\<close>\<close>

text \<open>The loop \<^verbatim>\<open>while (matrix.size() < kBlockSz)\<close> over the AC symbols.\<close>

function ReadBlock_ac ::
  "Node \<Rightarrow> 16 word list \<Rightarrow> BitReader \<Rightarrow> error + 16 word list \<times> BitReader" where
  "ReadBlock_ac ac_tree matrix s =
     (if length matrix < 64 then
        bindE (ReadFromHuffmanTree ac_tree s) (\<lambda>(mask, s).
          if mask = 0 then Inr (matrix @ replicate (64 - length matrix) 0, s)
          else
            let zeros_cnt = drop_bit 4 mask;
                ac_sz = mask AND 0xf;
                matrix = matrix @ replicate (unat zeros_cnt) 0
            in if ac_sz \<noteq> 0 \<or> zeros_cnt = 15
               then bindE (ReadBitsSigned (unat ac_sz) s) (\<lambda>(coef, s).
                      ReadBlock_ac ac_tree (matrix @ [coef]) s)
               else Inl Empty_ac_coef)
      else Inr (matrix, s))"
  by pat_completeness auto
termination
  by (relation "measure (\<lambda>(ac_tree, matrix, s). 64 - length matrix)") auto

declare ReadBlock_ac.simps [simp del]

text \<open>
  The DC part of \<^verbatim>\<open>ReadBlock\<close>: the symbol \<^verbatim>\<open>dc_sz\<close> is decoded and, unless it is 0, that
  many bits are read as the signed difference and added to \<^verbatim>\<open>prev_dc\<close>. The result is the
  new \<^verbatim>\<open>prev_dc\<close>, which is also the first element of the block.
\<close>

definition ReadBlock_dc :: "Node \<Rightarrow> 16 word \<Rightarrow> BitReader \<Rightarrow> error + 16 word \<times> BitReader" where
  "ReadBlock_dc dc_tree prev_dc s =
     bindE (ReadFromHuffmanTree dc_tree s) (\<lambda>(dc_sz, s).
       if dc_sz = 0 then Inr (prev_dc, s)
       else bindE (ReadBitsSigned (unat dc_sz) s) (\<lambda>(diff_dc, s).
              Inr (prev_dc + diff_dc, s)))"

text \<open>\<^verbatim>\<open>ReadBlock\<close> returns the block, the updated \<^verbatim>\<open>prev_dc\<close> and the reader.\<close>

definition ReadBlock ::
  "Node \<Rightarrow> Node \<Rightarrow> 16 word \<Rightarrow> BitReader \<Rightarrow> error + 16 word list \<times> 16 word \<times> BitReader" where
  "ReadBlock dc_tree ac_tree prev_dc s =
     bindE (ReadBlock_dc dc_tree prev_dc s) (\<lambda>(prev_dc, s).
     bindE (ReadBlock_ac ac_tree [prev_dc] s) (\<lambda>(matrix, s).
       if length matrix \<noteq> 64 then Inl Too_many_blocks_in_matrix
       else bindE (GetZigZag matrix) (\<lambda>block. Inr (block, prev_dc, s))))"

subsection \<open>The scan: \<^verbatim>\<open>ReadImageData\<close>\<close>

text \<open>
  The body of the loop over the channels of the scan header. The three vectors have been
  allocated with \<^verbatim>\<open>channels_cnt\<close> elements; a \<^verbatim>\<open>HuffmanTree*\<close> is the tree it points to.
\<close>

definition read_scan_channel ::
  "8 word \<Rightarrow> (nat \<Rightarrow> Node option) \<Rightarrow> nat \<Rightarrow>
   8 word list \<times> Node list \<times> Node list \<times> BitReader \<Rightarrow>
   error + 8 word list \<times> Node list \<times> Node list \<times> BitReader" where
  "read_scan_channel junk huffman_trees c = (\<lambda>(ids, dc_trees, ac_trees, s).
     bindE (ReadByte junk s) (\<lambda>(cid, s).
     bindE (ReadByte junk s) (\<lambda>(mask, s).
       let dc_id = drop_bit 4 mask;
           ac_id = mask AND 0xf;
           hash_dc = GetPairHash dc_id True;
           hash_ac = GetPairHash ac_id False
       in case huffman_trees (unat hash_dc) of
            None \<Rightarrow> Inl No_huffman_table_found
          | Some dc_tree \<Rightarrow>
              (case huffman_trees (unat hash_ac) of
                 None \<Rightarrow> Inl No_huffman_table_found
               | Some ac_tree \<Rightarrow>
                   Inr (ids[c := cid], dc_trees[c := dc_tree], ac_trees[c := ac_tree], s)))))"

text \<open>
  The three parameter bytes that end the scan header, \<^verbatim>\<open>Ss\<close>, \<^verbatim>\<open>Se\<close> and \<^verbatim>\<open>Ah << 4 | Al\<close>:
  the first and the third are read and discarded, the second is compared with 63.
\<close>

definition read_spectral_selection :: "8 word \<Rightarrow> BitReader \<Rightarrow> error + BitReader" where
  "read_spectral_selection junk s =
     bindE (ReadByte junk s) (\<lambda>(ss, s).
     bindE (ReadByte junk s) (\<lambda>(se, s).
       if se \<noteq> 63 then Inl Inconsistent_SOS_for_baseline_JPEG
       else bindE (ReadByte junk s) (\<lambda>(ah_al, s). Inr s)))"

text \<open>The state of the loops over the MCUs.\<close>

record ScanState =
  reader :: BitReader
  prev_dc :: "16 word list"
  matrix :: "16 word list list list"

text \<open>
  \<^verbatim>\<open>auto block = ReadBlock(dc_trees[c], ac_trees[c], prev_dc[c]);
  channel_matrix[c].push_back(std::move(block));\<close>
\<close>

definition read_block_of_channel :: "Node list \<Rightarrow> Node list \<Rightarrow> nat \<Rightarrow> ScanState \<Rightarrow> error + ScanState"
where
  "read_block_of_channel dc_trees ac_trees c st =
     bindE (ReadBlock (dc_trees ! c) (ac_trees ! c) (prev_dc st ! c) (reader st))
       (\<lambda>(block, dc, s).
          Inr (st\<lparr>reader := s,
                  prev_dc := (prev_dc st)[c := dc],
                  matrix := (matrix st)[c := matrix st ! c @ [block]]\<rparr>))"

definition read_mcus ::
  "Node list \<Rightarrow> Node list \<Rightarrow> ChannelMetadata list \<Rightarrow> nat \<Rightarrow> nat \<Rightarrow> nat \<Rightarrow>
   ScanState \<Rightarrow> error + ScanState" where
  "read_mcus dc_trees ac_trees channel_metadata n_mcu_h n_mcu_w n_channels =
     for_loop 0 n_mcu_h (\<lambda>mcu_y.
       for_loop 0 n_mcu_w (\<lambda>mcu_x.
         for_loop 0 n_channels (\<lambda>c.
           for_loop 0 (unat (ch_v (channel_metadata ! c))) (\<lambda>block_v.
             for_loop 0 (unat (ch_h (channel_metadata ! c))) (\<lambda>block_h.
               read_block_of_channel dc_trees ac_trees c)))))"

text \<open>
  \<^verbatim>\<open>ReadImageData\<close> in two parts. The first part reads the segment length, the channel
  count and the channels of the scan header; it yields what the second part uses: the
  remaining length \<^verbatim>\<open>sz\<close>, \<^verbatim>\<open>channels_cnt\<close>, \<^verbatim>\<open>channel_ids\<close>, \<^verbatim>\<open>dc_trees\<close> and
  \<^verbatim>\<open>ac_trees\<close>.
\<close>

definition read_scan_header ::
  "8 word \<Rightarrow> (nat \<Rightarrow> Node option) \<Rightarrow> BitReader \<Rightarrow>
   error + 16 word \<times> 8 word \<times> 8 word list \<times> Node list \<times> Node list \<times> BitReader" where
  "read_scan_header junk huffman_trees s =
     bindE (ReadSz junk s) (\<lambda>(sz, s).
     if sz < 1 then Inl No_info_about_channels_cnt
     else
       let sz = sz - 1 in
       bindE (ReadByte junk s) (\<lambda>(cnt, s).
       if uint sz < uint cnt * 2 then Inl Bad_image_data_size
       else
         let sz = sz - ucast cnt * 2 in
         bindE (for_loop 0 (unat cnt) (read_scan_channel junk huffman_trees)
                  (replicate (unat cnt) 0, replicate (unat cnt) nullptr,
                   replicate (unat cnt) nullptr, s))
           (\<lambda>(ids, dc_trees, ac_trees, s). Inr (sz, cnt, ids, dc_trees, ac_trees, s))))"

text \<open>
  The second part, from \<^verbatim>\<open>if (sz < 3)\<close> on: the three parameter bytes, the bytes left
  in the segment, the MCU grid and the blocks. The vector \<^verbatim>\<open>channel_metadata\<close> is filled
  in the order of the scan channels. The other variant has no test of the sampling
  factors against zero and calls \<^verbatim>\<open>GetMetaByChannelId\<close> inside the loops over the MCUs.
\<close>

definition read_scan_body ::
  "8 word \<Rightarrow> ImageMetadata \<Rightarrow>
   16 word \<times> 8 word \<times> 8 word list \<times> Node list \<times> Node list \<times> BitReader \<Rightarrow>
   error + ImageData \<times> BitReader" where
  "read_scan_body junk meta = (\<lambda>(sz, cnt, ids, dc_trees, ac_trees, s).
     if sz < 3 then Inl Bad_SOS_header
     else
       bindE (read_spectral_selection junk s) (\<lambda>s.
       let sz = sz - 3 in
       bindE (for_loop 0 (unat sz) (\<lambda>i s. bindE (ReadByte junk s) (\<lambda>(skipped, s). Inr s)) s)
         (\<lambda>s.
       let h_max = fold (\<lambda>c m. max m (ch_h c)) (channels meta) 0;
           v_max = fold (\<lambda>c m. max m (ch_v c)) (channels meta) 0
       in
       if h_max = 0 \<or> v_max = 0 then Inl Sampling_factor_is_zero
       else
         let n_mcu_h :: 16 word =
               word_of_int ((uint (height meta) + 8 * uint v_max - 1) div (8 * uint v_max));
             n_mcu_w :: 16 word =
               word_of_int ((uint (width meta) + 8 * uint h_max - 1) div (8 * uint h_max))
         in
         bindE (for_loop 0 (unat cnt)
                  (\<lambda>c channel_metadata.
                     bindE (GetMetaByChannelId meta (ids ! c)) (\<lambda>m.
                       Inr (channel_metadata @ [m])))
                  [])
           (\<lambda>channel_metadata.
         bindE (read_mcus dc_trees ac_trees channel_metadata
                  (unat n_mcu_h) (unat n_mcu_w) (unat cnt)
                  \<lparr>reader = s, prev_dc = replicate (unat cnt) 0,
                   matrix = replicate (unat cnt) []\<rparr>)
           (\<lambda>st.
              Inr (\<lparr>channel_matrix = matrix st, channel_ids = ids,
                    mcu_h = n_mcu_h, mcu_w = n_mcu_w\<rparr>,
                   reader st))))))"

definition ReadImageData ::
  "8 word \<Rightarrow> (nat \<Rightarrow> Node option) \<Rightarrow> ImageMetadata \<Rightarrow> BitReader \<Rightarrow>
   error + ImageData \<times> BitReader" where
  "ReadImageData junk huffman_trees meta s =
     bindE (read_scan_header junk huffman_trees s) (read_scan_body junk meta)"

text \<open>
  The branch \<^verbatim>\<open>marker == MarkerType::Data\<close> of the loop of \<^verbatim>\<open>ReadRawImage\<close>: the scan is
  read and the bit source is aligned.
\<close>

definition ReadRawImage_Data ::
  "8 word \<Rightarrow> (nat \<Rightarrow> Node option) \<Rightarrow> ImageMetadata option \<Rightarrow> BitReader \<Rightarrow>
   error + ImageData \<times> BitReader" where
  "ReadRawImage_Data junk huffman_trees metadata s =
     (case metadata of
        None \<Rightarrow> Inl No_metadata_before_reading_image_data
      | Some meta \<Rightarrow>
          bindE (ReadImageData junk huffman_trees meta s) (\<lambda>(image_data, s).
            Inr (image_data, Align s)))"

subsection \<open>Readings of the wire format used in the statements\<close>

text \<open>
  The channel list that a sequence of triples \<^verbatim>\<open>(id, h << 4 | v, quant_id)\<close> of the frame
  header denotes. It is not part of the program.
\<close>

fun channels_of_bytes :: "8 word list \<Rightarrow> ChannelMetadata list" where
  "channels_of_bytes (cid # hv # qid # bs) =
     \<lparr>channel_id = cid, ch_h = drop_bit 4 hv, ch_v = hv AND 0xf, quant_id = qid\<rparr>
       # channels_of_bytes bs"
| "channels_of_bytes bs = []"

text \<open>The 16-bit big-endian number that two bytes denote, as \<^verbatim>\<open>ReadWord\<close> assembles it.\<close>

definition word_of_bytes :: "8 word \<Rightarrow> 8 word \<Rightarrow> 16 word" where
  "word_of_bytes hi lo = push_bit 8 (ucast hi) OR ucast lo"

text \<open>
  Steps run one after the other, stopping at the first error; and the order in which the
  specification lists the blocks of a scan: MCUs row by row, in each MCU the channels in
  scan order, for each channel its blocks row by row. An entry is
  \<open>(mcu_y, mcu_x, c, block_v, block_h)\<close>. Neither is part of the program.
\<close>

fun run_list :: "('s \<Rightarrow> error + 's) list \<Rightarrow> 's \<Rightarrow> error + 's" where
  "run_list [] st = Inr st"
| "run_list (f # fs) st = bindE (f st) (run_list fs)"

definition mcu_block_order ::
  "ChannelMetadata list \<Rightarrow> nat \<Rightarrow> nat \<Rightarrow> nat \<Rightarrow> (nat \<times> nat \<times> nat \<times> nat \<times> nat) list" where
  "mcu_block_order channel_metadata n_mcu_h n_mcu_w n_channels =
     [(mcu_y, mcu_x, c, block_v, block_h).
        mcu_y \<leftarrow> [0..<n_mcu_h], mcu_x \<leftarrow> [0..<n_mcu_w], c \<leftarrow> [0..<n_channels],
        block_v \<leftarrow> [0..<unat (ch_v (channel_metadata ! c))],
        block_h \<leftarrow> [0..<unat (ch_h (channel_metadata ! c))]]"

section \<open>Reconstruction: inverse DCT and level shift\<close>

text \<open>
  The \<^verbatim>\<open>double\<close> arithmetic of the inverse DCT is idealised: it is done in the real
  numbers, and \<^verbatim>\<open>std::sqrt(2)\<close> is \<open>sqrt 2\<close>. (The other variant of \<^verbatim>\<open>Inverse\<close> writes the
  constant as \<^verbatim>\<open>1.4142135623730951\<close>.)
\<close>

text \<open>
  Modelled from the spec: the transform \<^verbatim>\<open>REDFT01\<close> that \<^verbatim>\<open>fftw_plan_r2r_2d\<close> and
  \<^verbatim>\<open>fftw_execute\<close> apply. They belong to the FFTW library, whose code is not under src/.
  A \<^verbatim>\<open>REDFT01\<close> of length \<open>n\<close> maps \<open>X\<close> to
  \<open>Y k = X 0 + 2 * (\<Sum>j = 1..<n. X j * cos (pi * j * (k + 1/2) / n))\<close>, without
  normalisation; with the scaling of \<^verbatim>\<open>Inverse\<close> its two-dimensional form is the sum
  \<open>s(y, x)\<close> that the specification writes out. The two-dimensional transform of a
  row-major \<open>n \<times> n\<close> array transforms every row and then every column.
\<close>

definition redft01 :: "real list \<Rightarrow> real list" where
  "redft01 X =
     map (\<lambda>k. X ! 0 +
            2 * (\<Sum>j = 1..<length X.
                   X ! j * cos (pi * real j * (real k + 1 / 2) / real (length X))))
       [0..<length X]"

definition redft01_2d :: "nat \<Rightarrow> real list \<Rightarrow> real list" where
  "redft01_2d n X =
     (let rows = map (\<lambda>i. redft01 (map (\<lambda>j. X ! (i * n + j)) [0..<n])) [0..<n];
          cols = map (\<lambda>k. redft01 (map (\<lambda>i. rows ! i ! k) [0..<n])) [0..<n]
      in map (\<lambda>idx. cols ! (idx mod n) ! (idx div n)) [0..<n * n])"

text \<open>
  \<^verbatim>\<open>DctCalculator::Impl::Inverse\<close>: every input is divided by 16, the first row and the
  first column are multiplied by \<open>sqrt 2\<close>, and the transform is executed. The result is
  the output array; \<open>n\<close> is \<^verbatim>\<open>width_\<close>.
\<close>

definition Inverse :: "nat \<Rightarrow> real list \<Rightarrow> real list" where
  "Inverse n input =
     redft01_2d n
       (map (\<lambda>i. let x = input ! i / 16;
                     x = (if i < n then x * sqrt 2 else x);
                     x = (if i mod n = 0 then x * sqrt 2 else x)
                 in x)
          [0..<n * n])"

text \<open>\<^verbatim>\<open>std::round\<close> rounds to the nearest integer, halfway cases away from zero.\<close>

definition std_round :: "real \<Rightarrow> int" where
  "std_round x = (if 0 \<le> x then \<lfloor>x + 1 / 2\<rfloor> else - \<lfloor>- x + 1 / 2\<rfloor>)"

text \<open>
  The body of \<^verbatim>\<open>IDCT\<close> for one block. The constructor of \<^verbatim>\<open>DctCalculator\<close> throws unless
  the arrays have \<open>width * width\<close> elements.
\<close>

definition IDCT_block :: "16 word list \<Rightarrow> error + 16 word list" where
  "IDCT_block block =
     (if length block \<noteq> 8 * 8 then Inl Input_output_sz_is_not_width_times_width
      else Inr (map (\<lambda>x. word_of_int (std_round x))
                  (Inverse 8 (map (\<lambda>c. real_of_int (sint c)) block))))"

text \<open>
  \<^verbatim>\<open>Rationing\<close> for one sample:
  \<^verbatim>\<open>std::min<int16_t>(std::max<int16_t>(0, x + 128), 255)\<close>, with signed comparisons.
\<close>

definition Rationing_sample :: "16 word \<Rightarrow> 16 word" where
  "Rationing_sample x =
     (let y = (word_of_int (sint x + 128) :: 16 word);
          m = (if sint (0 :: 16 word) < sint y then y else 0)
      in if sint (255 :: 16 word) < sint m then 255 else m)"

text \<open>
  What \<^verbatim>\<open>Decode\<close> does to one block of a channel with the quantization table
  \<open>quantum_table\<close>: \<^verbatim>\<open>Quantization\<close>, \<^verbatim>\<open>IDCT\<close> and \<^verbatim>\<open>Rationing\<close>.
\<close>

definition reconstruct_block :: "16 word list \<Rightarrow> 16 word list \<Rightarrow> error + 16 word list" where
  "reconstruct_block quantum_table block =
     bindE (Mult block quantum_table) (\<lambda>block.
     bindE (IDCT_block block) (\<lambda>block.
       Inr (map Rationing_sample block)))"

text \<open>
  The sample \<open>s(y, x)\<close> of the specification's inverse DCT, for a coefficient block given
  as a function of the row \<open>v\<close> and the column \<open>u\<close>. It is not part of the program.
\<close>

definition jpeg_idct_sample :: "(nat \<Rightarrow> nat \<Rightarrow> real) \<Rightarrow> nat \<Rightarrow> nat \<Rightarrow> real" where
  "jpeg_idct_sample S y x =
     1 / 4 * (\<Sum>u<8. \<Sum>v<8.
        (if u = 0 then 1 / sqrt 2 else 1) * (if v = 0 then 1 / sqrt 2 else 1) * S v u *
        cos ((2 * real x + 1) * real u * pi / 16) * cos ((2 * real y + 1) * real v * pi / 16))"

section \<open>Properties of \<^verbatim>\<open>Mult\<close>\<close>

lemma Mult_loop_length: "length (Mult_loop i one two) = length one"
  by (induction i one two rule: Mult_loop.induct) (subst Mult_loop.simps, simp)

lemma Mult_loop_nth:
  "k < length one \<Longrightarrow>
   Mult_loop i one two ! k = (if i \<le> k then mul_assign (one ! k) (two ! k) else one ! k)"
proof (induction i one two rule: Mult_loop.induct)
  case (1 i one two)
  let ?one' = "one[i := mul_assign (one ! i) (two ! i)]"
  show ?case
  proof (cases "i < length one")
    case True
    have "Mult_loop i one two ! k = Mult_loop (i + 1) ?one' two ! k"
      using True by (subst Mult_loop.simps) simp
    also have "\<dots> = (if i + 1 \<le> k then mul_assign (?one' ! k) (two ! k) else ?one' ! k)"
      using True "1.prems" by (intro "1.IH") simp_all
    also have "\<dots> = (if i \<le> k then mul_assign (one ! k) (two ! k) else one ! k)"
      using True "1.prems" by (cases "k = i") (auto simp: nth_list_update)
    finally show ?thesis .
  next
    case False
    with 1 show ?thesis by (subst Mult_loop.simps) simp
  qed
qed

lemma sint_word_of_int_16_exact:
  "sint (word_of_int x :: 16 word) = x \<longleftrightarrow> - 32768 \<le> x \<and> x \<le> 32767"
proof -
  have "sint (word_of_int x :: 16 word) = signed_take_bit 15 x"
    by (simp add: sint_sbintrunc')
  moreover have "signed_take_bit 15 x = x \<longleftrightarrow> - (2 ^ 15) \<le> x \<and> x < 2 ^ 15"
    by (rule signed_take_bit_int_eq_self_iff)
  ultimately show ?thesis by auto
qed

lemma sint_mul_assign_exact:
  "sint (mul_assign a q) = sint a * uint q \<longleftrightarrow>
     - 32768 \<le> sint a * uint q \<and> sint a * uint q \<le> 32767"
  unfolding mul_assign_def by (rule sint_word_of_int_16_exact)

lemma uint_mul_assign: "uint (mul_assign a q) = (sint a * uint q) mod 65536"
proof -
  have "uint (word_of_int (sint a * uint q) :: 16 word) = (sint a * uint q) mod 2 ^ LENGTH(16)"
    by (rule uint_word_of_int)
  also have "(2::int) ^ LENGTH(16) = 65536" by simp
  finally show ?thesis by (simp only: mul_assign_def)
qed

text \<open>
  Claim C10. For a coefficient block and a quantization table of equal length, \<^verbatim>\<open>Mult\<close>
  succeeds and stores at every index the product of the signed coefficient and the
  unsigned quantizer reduced modulo \<open>2 ^ 16\<close> into the signed 16-bit element; the stored
  value is the exact product precisely when the product lies in \<open>[-32768, 32767]\<close>; and
  there is a pair (256 times 256) whose stored value, 0, is not the product.
\<close>

theorem Mult_stores_product_mod_2_16:
  assumes "length one = length two"
  shows "\<exists>r. Mult one two = Inr r \<and> length r = length one \<and>
           (\<forall>i<length one.
              uint (r ! i) = (sint (one ! i) * uint (two ! i)) mod 65536 \<and>
              (sint (r ! i) = sint (one ! i) * uint (two ! i) \<longleftrightarrow>
                 - 32768 \<le> sint (one ! i) * uint (two ! i) \<and>
                 sint (one ! i) * uint (two ! i) \<le> 32767)) \<and>
         (\<exists>a q. Mult [a] [q] = Inr [0] \<and> sint a * uint q = 65536)"
proof -
  have "Mult [256] [256] = Inr [0] \<and> sint (256 :: 16 word) * uint (256 :: 16 word) = 65536"
    by (simp add: Mult_def Mult_loop.simps mul_assign_def)
  then have ex: "\<exists>a q. Mult [a] [q] = Inr [0] \<and> sint a * uint q = 65536"
    by blast
  have "Mult one two = Inr (Mult_loop 0 one two)"
    using assms by (simp add: Mult_def)
  moreover have "length (Mult_loop 0 one two) = length one"
    by (rule Mult_loop_length)
  moreover have "\<forall>i<length one.
      uint (Mult_loop 0 one two ! i) = (sint (one ! i) * uint (two ! i)) mod 65536 \<and>
      (sint (Mult_loop 0 one two ! i) = sint (one ! i) * uint (two ! i) \<longleftrightarrow>
         - 32768 \<le> sint (one ! i) * uint (two ! i) \<and>
         sint (one ! i) * uint (two ! i) \<le> 32767)"
    by (simp add: Mult_loop_nth uint_mul_assign sint_mul_assign_exact)
  ultimately show ?thesis using ex by blast
qed

theorem Mult_stores_product_mod_2_16_witness:
  "length [3, - 2 :: 16 word] = length [5, 7 :: 16 word] \<and>
   (\<exists>r. Mult [3, - 2] [5, 7] = Inr r \<and> r = [15, - 14])"
proof -
  have len: "length [3, - 2 :: 16 word] = length [5, 7 :: 16 word]" by simp
  have ev: "Mult [3, - 2] [5, 7] = Inr [15, - 14]"
    by (simp add: Mult_def Mult_loop.simps mul_assign_def)
  from Mult_stores_product_mod_2_16 [OF len]
  obtain r where r: "Mult [3, - 2] [5, 7] = Inr r" by blast
  with ev have "r = [15, - 14]" by simp
  with r len show ?thesis by blast
qed

section \<open>Properties of \<^verbatim>\<open>YCbCrToRGB\<close>\<close>

text \<open>
  Claim C6, evaluated at \<open>(Y, Cb, Cr) = (0, 128, 255)\<close>. The fixed-point conversion yields
  \<open>R = 173\<close>: the coefficient 1402 is 1.402 scaled by 1000, while the shift divides by
  1024. The reference yields \<open>R = 178\<close>, so the two differ by 5, not by at most 1.
\<close>

theorem YCbCrToRGB_fixed_point_off_by_five:
  "YCbCrToRGB [0, 128, 255] = Inr \<lparr>rgb_r = 173, rgb_g = 0, rgb_b = 0\<rparr> \<and>
   YCbCrToRGB_reference [0, 128, 255] = Inr (178, 0, 0) \<and>
   \<not> \<bar>uint (173 :: 8 word) - 178\<bar> \<le> 1"
  by (simp add: YCbCrToRGB_def YCbCrToRGB_reference_def clamp8_def round_clamp_reference_def
      drop_bit_eq_div push_bit_eq_mult)

section \<open>Properties of the bit source\<close>

lemma bindE_simps [simp]:
  "bindE (Inl e) f = Inl e"
  "bindE (Inr x) f = f x"
  by (simp_all add: bindE_def)

lemma refill_stuffed_zero:
  "in_stream s = 0xff # 0x00 # rest \<Longrightarrow>
   refill s = Inr (s\<lparr>in_stream := rest, buffer := 0xff, buffer_size := 8\<rparr>)"
  by (simp add: refill_def)

lemma refill_marker:
  "in_stream s = 0xff # rest \<Longrightarrow> rest = [] \<or> hd rest \<noteq> 0 \<Longrightarrow>
   refill s = Inl Encountered_marker_instead_of_0xFF"
  by (cases rest) (auto simp: refill_def)

lemma ReadBits_loop_marker:
  "buffer_size s < n \<Longrightarrow> in_stream s = 0xff # rest \<Longrightarrow> rest = [] \<or> hd rest \<noteq> 0 \<Longrightarrow>
   ReadBits_loop n result s = Inl Encountered_marker_instead_of_0xFF"
proof (induction n arbitrary: result s)
  case 0
  then show ?case by simp
next
  case (Suc n)
  show ?case
  proof (cases "buffer_size s = 0")
    case True
    with Suc.prems show ?thesis by (simp add: refill_marker)
  next
    case False
    let ?s2 = "s\<lparr>buffer_size := buffer_size s - 1, buffer := push_bit 1 (buffer s)\<rparr>"
    have "buffer_size ?s2 < n" using False Suc.prems by simp
    moreover have "in_stream ?s2 = 0xff # rest" using Suc.prems by simp
    ultimately have "ReadBits_loop n r ?s2 = Inl Encountered_marker_instead_of_0xFF" for r
      using Suc.prems(3) by (rule Suc.IH)
    with False show ?thesis by (simp add: take_bit_from_buffer_def)
  qed
qed

lemma stuff_simps [simp]:
  "stuff [] = []"
  "stuff (b # bs) = (if b = 0xff then 0xff # 0x00 # stuff bs else b # stuff bs)"
  by (simp_all add: stuff_def)

lemma refill_restuff:
  "refill (restuff s) = map_sum id restuff (refill_plain s)"
  by (cases "in_stream s") (auto simp: refill_def refill_plain_def restuff_def)

lemma take_bit_from_buffer_restuff:
  "take_bit_from_buffer result (restuff s) = apsnd restuff (take_bit_from_buffer result s)"
  by (simp add: take_bit_from_buffer_def restuff_def)

lemma ReadBits_loop_restuff:
  "ReadBits_loop n result (restuff s) =
   map_sum id (apsnd restuff) (ReadBits_plain_loop n result s)"
proof (induction n arbitrary: result s)
  case 0
  then show ?case by simp
next
  case (Suc n)
  show ?case
  proof (cases "buffer_size s = 0")
    case True
    then have bs: "buffer_size (restuff s) = 0" by (simp add: restuff_def)
    show ?thesis
    proof (cases "refill_plain s")
      case (Inl e)
      with True bs show ?thesis by (simp add: refill_restuff)
    next
      case (Inr s1)
      with True bs Suc.IH show ?thesis
        by (simp add: refill_restuff take_bit_from_buffer_restuff split: prod.splits)
    qed
  next
    case False
    then have bs: "buffer_size (restuff s) \<noteq> 0" by (simp add: restuff_def)
    with False Suc.IH show ?thesis
      by (simp add: take_bit_from_buffer_restuff split: prod.splits)
  qed
qed

lemma ReadBits_restuff:
  "ReadBits n (restuff s) = map_sum id (apsnd restuff) (ReadBits_plain n s)"
  by (simp add: ReadBits_def ReadBits_plain_def ReadBits_loop_restuff)

lemma ReadBits_refill_first:
  assumes "1 \<le> n" and "buffer_size s = 0" and "refill s = Inr s1" and "buffer_size s1 \<noteq> 0"
  shows "ReadBits n s = ReadBits n s1"
proof -
  from assms(1) obtain m where n: "n = Suc m" by (cases n) auto
  show ?thesis using assms(2-4) by (simp add: ReadBits_def n)
qed

text \<open>
  Claim C1. Let \<open>1 \<le> n \<le> 16\<close>. When the refill byte is \<^verbatim>\<open>FF\<close> and the next byte is
  \<^verbatim>\<open>00\<close>, the refill extracts exactly these two bytes and leaves \<^verbatim>\<open>FF\<close> in the buffer as
  eight data bits, and a call of \<^verbatim>\<open>ReadBits\<close> that starts with the empty buffer continues
  as from that state. When the byte after \<^verbatim>\<open>FF\<close> is not \<^verbatim>\<open>00\<close>, or the stream ends after
  \<^verbatim>\<open>FF\<close>, the refill fails, and so does every call that needs more bits than the buffer
  holds. Consequently, reading from a stuffed payload gives the result of reading the
  payload itself without the stuffing rule: the same value or the same error, and the
  same buffer, with the stuffed rest of the payload left in the stream.
\<close>

theorem ReadBits_byte_stuffing:
  assumes "1 \<le> n" and "n \<le> 16"
  shows "(in_stream s = 0xff # 0x00 # rest \<longrightarrow>
            refill s = Inr (s\<lparr>in_stream := rest, buffer := 0xff, buffer_size := 8\<rparr>) \<and>
            (buffer_size s = 0 \<longrightarrow>
               ReadBits n s =
               ReadBits n (s\<lparr>in_stream := rest, buffer := 0xff, buffer_size := 8\<rparr>))) \<and>
         (in_stream s = 0xff # rest \<and> (rest = [] \<or> hd rest \<noteq> 0x00) \<longrightarrow>
            refill s = Inl Encountered_marker_instead_of_0xFF \<and>
            (buffer_size s < n \<longrightarrow>
               ReadBits n s = Inl Encountered_marker_instead_of_0xFF)) \<and>
         ReadBits n (restuff t) = map_sum id (apsnd restuff) (ReadBits_plain n t)"
proof (intro conjI impI)
  assume a: "in_stream s = 0xff # 0x00 # rest"
  then show r: "refill s = Inr (s\<lparr>in_stream := rest, buffer := 0xff, buffer_size := 8\<rparr>)"
    by (rule refill_stuffed_zero)
  assume "buffer_size s = 0"
  with assms(1) r
  show "ReadBits n s = ReadBits n (s\<lparr>in_stream := rest, buffer := 0xff, buffer_size := 8\<rparr>)"
    by (intro ReadBits_refill_first) simp_all
next
  assume b: "in_stream s = 0xff # rest \<and> (rest = [] \<or> hd rest \<noteq> 0x00)"
  then show "refill s = Inl Encountered_marker_instead_of_0xFF"
    by (intro refill_marker [of s rest]) simp_all
  assume "buffer_size s < n"
  with b assms(2) show "ReadBits n s = Inl Encountered_marker_instead_of_0xFF"
    by (simp add: ReadBits_def ReadBits_loop_marker [of s n rest])
next
  show "ReadBits n (restuff t) = map_sum id (apsnd restuff) (ReadBits_plain n t)"
    by (rule ReadBits_restuff)
qed

theorem ReadBits_byte_stuffing_witness:
  "ReadBits 12 \<lparr>in_stream = [0xff, 0x00, 0xab], buffer = 0, buffer_size = 0\<rparr> =
     Inr (0xffa, \<lparr>in_stream = [], buffer = 0xb0, buffer_size = 4\<rparr>) \<and>
   ReadBits 12 \<lparr>in_stream = [0xff, 0xd9], buffer = 0, buffer_size = 0\<rparr> =
     Inl Encountered_marker_instead_of_0xFF \<and>
   ReadBits_plain 12 \<lparr>in_stream = [0xff, 0xab], buffer = 0, buffer_size = 0\<rparr> =
     Inr (0xffa, \<lparr>in_stream = [], buffer = 0xb0, buffer_size = 4\<rparr>)"
proof -
  let ?s = "\<lparr>in_stream = [0xff, 0x00, 0xab], buffer = 0, buffer_size = 0\<rparr>"
  let ?m = "\<lparr>in_stream = [0xff, 0xd9], buffer = 0, buffer_size = 0\<rparr>"
  let ?t = "\<lparr>in_stream = [0xff, 0xab], buffer = 0, buffer_size = 0\<rparr>"
  have n: "(1::nat) \<le> 12" "(12::nat) \<le> 16" by simp_all
  have plain: "ReadBits_plain 12 ?t =
      Inr (0xffa, \<lparr>in_stream = [], buffer = 0xb0, buffer_size = 4\<rparr>)"
    by code_simp
  have rs: "restuff ?t = ?s" by (simp add: restuff_def)
  from ReadBits_byte_stuffing [OF n, of ?s "[0xab]" ?t]
  have "ReadBits 12 (restuff ?t) = map_sum id (apsnd restuff) (ReadBits_plain 12 ?t)"
    by blast
  then have 1: "ReadBits 12 ?s =
      Inr (0xffa, \<lparr>in_stream = [], buffer = 0xb0, buffer_size = 4\<rparr>)"
    unfolding rs plain by (simp add: restuff_def)
  from ReadBits_byte_stuffing [OF n, of ?m "[0xd9]" ?t]
  have 2: "ReadBits 12 ?m = Inl Encountered_marker_instead_of_0xFF"
    by simp
  from 1 2 plain show ?thesis by simp
qed

text \<open>
  Claim C7, evaluated at the exhausted stream with the empty bit buffer. \<^verbatim>\<open>ReadBits\<close>
  reports the end of the stream, but \<^verbatim>\<open>ReadByte\<close>, and with it \<^verbatim>\<open>ReadWord\<close>, returns a
  value: the indeterminate content of a local variable that the failed extraction never
  wrote.
\<close>

theorem ReadByte_returns_at_end_of_stream:
  "ReadBits 1 \<lparr>in_stream = [], buffer = 0, buffer_size = 0\<rparr> = Inl EOF \<and>
   ReadByte junk \<lparr>in_stream = [], buffer = 0, buffer_size = 0\<rparr> =
     Inr (junk, \<lparr>in_stream = [], buffer = 0, buffer_size = 0\<rparr>) \<and>
   ReadWord junk \<lparr>in_stream = [], buffer = 0, buffer_size = 0\<rparr> =
     Inr (push_bit 8 (ucast junk) OR ucast junk,
          \<lparr>in_stream = [], buffer = 0, buffer_size = 0\<rparr>)"
  by (simp add: ReadBits_def ReadByte_def ReadWord_def refill_def)

section \<open>Properties of \<^verbatim>\<open>HuffmanTree::Build\<close>\<close>

text \<open>
  Claim C9, evaluated at the all-zero histogram of 16 entries with the one value 0, a
  value list with more symbols than the histogram total. The depth-skipping loop
  advances \<^verbatim>\<open>now_length\<close> to 17 and evaluates \<^verbatim>\<open>code_lengths_new[16]\<close>, one element past
  the end of the vector, before it tests \<^verbatim>\<open>now_length <= code_lengths.size()\<close>.
\<close>

theorem Build_reads_past_histogram:
  "Build (replicate 16 0) [0] = Inl (Out_of_bounds_read 16)"
  by code_simp

section \<open>Properties of the frame header\<close>

lemma ReadByte_cons:
  "buffer_size s = 0 \<Longrightarrow> in_stream s = b # rest \<Longrightarrow>
   ReadByte junk s = Inr (b, s\<lparr>in_stream := rest\<rparr>)"
  by (simp add: ReadByte_def)

lemma ReadWord_cons:
  "buffer_size s = 0 \<Longrightarrow> in_stream s = b1 # b2 # rest \<Longrightarrow>
   ReadWord junk s = Inr (word_of_bytes b1 b2, s\<lparr>in_stream := rest\<rparr>)"
  by (simp add: ReadWord_def ReadByte_def word_of_bytes_def)

lemma ReadByte_unaligned: "buffer_size s \<noteq> 0 \<Longrightarrow> ReadByte junk s = Inl Bits_not_aligned"
  by (simp add: ReadByte_def)

lemma length_channels_of_bytes: "length (channels_of_bytes bs) = length bs div 3"
  by (induction bs rule: channels_of_bytes.induct) simp_all

lemma for_loop_done: "\<not> i < n \<Longrightarrow> for_loop i n body st = Inr st"
  by (subst for_loop.simps) simp

lemma for_loop_step: "i < n \<Longrightarrow> for_loop i n body st = bindE (body i st) (for_loop (i + 1) n body)"
  by (subst for_loop.simps) simp

lemma read_channel_info_cons:
  "buffer_size s = 0 \<Longrightarrow> in_stream s = cid # hv # qid # rest \<Longrightarrow>
   read_channel_info junk c (acc, s) =
     Inr (acc @ [\<lparr>channel_id = cid, ch_h = drop_bit 4 hv, ch_v = hv AND 0xf, quant_id = qid\<rparr>],
          s\<lparr>in_stream := rest\<rparr>)"
  by (simp add: read_channel_info_def ReadByte_def)

lemma for_loop_read_channel_info:
  "buffer_size s = 0 \<Longrightarrow> in_stream s = chans @ rest \<Longrightarrow> length chans = 3 * k \<Longrightarrow>
   for_loop i (i + k) (read_channel_info junk) (acc, s) =
     Inr (acc @ channels_of_bytes chans, s\<lparr>in_stream := rest\<rparr>)"
proof (induction k arbitrary: i acc s chans)
  case 0
  then show ?case by (simp add: for_loop_done)
next
  case (Suc k)
  from Suc.prems(3) obtain cid hv qid chans' where
    chans: "chans = cid # hv # qid # chans'" and len: "length chans' = 3 * k"
    by (cases chans; cases "tl chans"; cases "tl (tl chans)") auto
  let ?s1 = "s\<lparr>in_stream := chans' @ rest\<rparr>"
  let ?m = "\<lparr>channel_id = cid, ch_h = drop_bit 4 hv, ch_v = hv AND 0xf, quant_id = qid\<rparr>"
  have step: "read_channel_info junk i (acc, s) = Inr (acc @ [?m], ?s1)"
    using Suc.prems(1,2) by (simp add: read_channel_info_cons chans)
  have "for_loop (i + 1) (i + 1 + k) (read_channel_info junk) (acc @ [?m], ?s1) =
        Inr ((acc @ [?m]) @ channels_of_bytes chans', ?s1\<lparr>in_stream := rest\<rparr>)"
    using Suc.prems(1) len by (intro Suc.IH) simp_all
  then show ?case
    by (simp add: for_loop_step step chans)
qed


lemma frame_length_arith:
  fixes len :: "16 word" and cnt :: "8 word"
  assumes "unat len = 8 + 3 * unat cnt"
  shows "\<not> len < 2" and "\<not> len - 2 < 6" and "uint (len - 2 - 6) = uint cnt * 3"
proof -
  have le2: "(2 :: 16 word) \<le> len" using assms by (simp add: word_le_nat_alt)
  then have "unat (len - 2) = unat len - unat (2 :: 16 word)" by (rule unat_sub)
  then have u2: "unat (len - 2) = unat len - 2" by simp
  have le6: "(6 :: 16 word) \<le> len - 2" using assms u2 by (simp add: word_le_nat_alt)
  then have "unat (len - 2 - 6) = unat (len - 2) - unat (6 :: 16 word)" by (rule unat_sub)
  then have u6: "unat (len - 2 - 6) = unat len - 8" using u2 by simp
  show "\<not> len < 2" using le2 by (simp add: not_less)
  show "\<not> len - 2 < 6" using le6 by (simp add: not_less)
  have "unat (len - 2 - 6) = 3 * unat cnt" using assms u6 by simp
  then have "int (unat (len - 2 - 6)) = int (unat cnt) * 3" by (simp only: of_nat_mult of_nat_numeral mult.commute)
  then show "uint (len - 2 - 6) = uint cnt * 3" by (simp only: of_nat_unat) 
qed

text \<open>
  Claim C5, as the code has it. \<^verbatim>\<open>ReadImageMeta\<close> never examines the sample-precision
  byte: a frame header whose length field is \<open>8 + 3 N\<close>, whose height and width are not
  zero and whose \<open>N\<close> channel triples are present is accepted whatever its precision byte
  \<open>p\<close> is, 8 or not, and \<open>p\<close> is stored in the metadata as it was read.
\<close>

theorem ReadImageMeta_stores_any_precision:
  assumes "buffer_size s = 0"
      and "in_stream s = hi # lo # p # h1 # h2 # w1 # w2 # cnt # chans @ rest"
      and "length chans = 3 * unat cnt"
      and "unat (word_of_bytes hi lo) = 8 + 3 * unat cnt"
      and "word_of_bytes h1 h2 \<noteq> 0" and "word_of_bytes w1 w2 \<noteq> 0"
  shows "ReadImageMeta junk s =
           Inr (\<lparr>precision = p, channels_cnt = cnt,
                 height = word_of_bytes h1 h2, width = word_of_bytes w1 w2,
                 channels = channels_of_bytes chans\<rparr>,
                s\<lparr>in_stream := rest\<rparr>)"
proof -
  let ?len = "word_of_bytes hi lo"
  let ?s1 = "s\<lparr>in_stream := p # h1 # h2 # w1 # w2 # cnt # chans @ rest\<rparr>"
  let ?s2 = "s\<lparr>in_stream := h1 # h2 # w1 # w2 # cnt # chans @ rest\<rparr>"
  let ?s3 = "s\<lparr>in_stream := w1 # w2 # cnt # chans @ rest\<rparr>"
  let ?s4 = "s\<lparr>in_stream := cnt # chans @ rest\<rparr>"
  let ?s5 = "s\<lparr>in_stream := chans @ rest\<rparr>"
  note ar = frame_length_arith [OF assms(4)]
  have sz: "ReadSz junk s = Inr (?len - 2, ?s1)"
    using assms(1,2) ar(1) by (simp add: ReadSz_def ReadWord_cons)
  have b1: "ReadByte junk ?s1 = Inr (p, ?s2)"
    using assms(1) by (simp add: ReadByte_cons)
  have w1: "ReadWord junk ?s2 = Inr (word_of_bytes h1 h2, ?s3)"
    using assms(1) by (simp add: ReadWord_cons)
  have w2: "ReadWord junk ?s3 = Inr (word_of_bytes w1 w2, ?s4)"
    using assms(1) by (simp add: ReadWord_cons)
  have b2: "ReadByte junk ?s4 = Inr (cnt, ?s5)"
    using assms(1) by (simp add: ReadByte_cons)
  have loop: "for_loop 0 (unat cnt) (read_channel_info junk) ([], ?s5) =
        Inr (channels_of_bytes chans, s\<lparr>in_stream := rest\<rparr>)"
    using for_loop_read_channel_info [of ?s5 chans rest "unat cnt" 0 junk "[]"] assms(1,3)
    by simp
  have ctor: "new_ImageMetadata p cnt (word_of_bytes h1 h2) (word_of_bytes w1 w2)
                (channels_of_bytes chans) =
        Inr \<lparr>precision = p, channels_cnt = cnt,
             height = word_of_bytes h1 h2, width = word_of_bytes w1 w2,
             channels = channels_of_bytes chans\<rparr>"
    using assms(3) by (simp add: new_ImageMetadata_def length_channels_of_bytes)
  show ?thesis
    unfolding ReadImageMeta_def
    using ar(2,3) assms(5,6) by (simp add: sz b1 w1 w2 b2 loop ctor Let_def)
qed

theorem ReadImageMeta_stores_any_precision_witness:
  "ReadImageMeta 0 \<lparr>in_stream = [0, 11, 8, 0, 8, 0, 8, 1, 1, 0x11, 0, 0xff, 0xc4],
                     buffer = 0, buffer_size = 0\<rparr> =
     Inr (\<lparr>precision = 8, channels_cnt = 1, height = 8, width = 8,
           channels = [\<lparr>channel_id = 1, ch_h = 1, ch_v = 1, quant_id = 0\<rparr>]\<rparr>,
          \<lparr>in_stream = [0xff, 0xc4], buffer = 0, buffer_size = 0\<rparr>)"
  using ReadImageMeta_stores_any_precision
    [of "\<lparr>in_stream = [0, 11, 8, 0, 8, 0, 8, 1, 1, 0x11, 0, 0xff, 0xc4],
          buffer = 0, buffer_size = 0\<rparr>" 0 11 8 0 8 0 8 1 "[1, 0x11, 0]" "[0xff, 0xc4]" 0]
  by (simp add: word_of_bytes_def)

text \<open>
  Claim C5, as stated, fails: a frame header with the sample precision 12 is accepted.
\<close>

theorem ReadImageMeta_accepts_precision_12:
  "ReadImageMeta 0 \<lparr>in_stream = [0, 11, 12, 0, 8, 0, 8, 1, 1, 0x11, 0],
                     buffer = 0, buffer_size = 0\<rparr> =
     Inr (\<lparr>precision = 12, channels_cnt = 1, height = 8, width = 8,
           channels = [\<lparr>channel_id = 1, ch_h = 1, ch_v = 1, quant_id = 0\<rparr>]\<rparr>,
          \<lparr>in_stream = [], buffer = 0, buffer_size = 0\<rparr>)"
  by code_simp

section \<open>Properties of \<^verbatim>\<open>ReadBlock\<close>\<close>

text \<open>
  Claim C3, as the code has it. Let the DC codebook yield the symbol \<open>dc_sz\<close>. When it
  is 0 no bit is read and the predictor is kept. When it lies in \<open>1..16\<close>, exactly that
  many bits are taken by the bit loop, extended to the signed difference and added to the
  predictor in 16-bit arithmetic; the symbol itself causes no failure, for 12 to 16 as
  for 1 to 11. When it exceeds 16, \<^verbatim>\<open>ReadBits\<close> rejects the count and the block decode
  fails. \<^verbatim>\<open>ReadBlock\<close> has no test of its own on the DC symbol.
\<close>

theorem ReadBlock_dc_symbol:
  assumes "ReadFromHuffmanTree dc_tree s = Inr (dc_sz, s1)"
  shows "(dc_sz = 0 \<longrightarrow> ReadBlock_dc dc_tree prev s = Inr (prev, s1)) \<and>
         (1 \<le> unat dc_sz \<and> unat dc_sz \<le> 16 \<longrightarrow>
            ReadBlock_dc dc_tree prev s =
              bindE (ReadBits_loop (unat dc_sz) 0 s1) (\<lambda>(raw, s2).
                Inr (prev + (if bit raw (unat dc_sz - 1) then raw
                             else word_of_int (uint raw - (2 ^ unat dc_sz - 1))), s2))) \<and>
         (16 < unat dc_sz \<longrightarrow>
            ReadBlock_dc dc_tree prev s = Inl Trying_to_read_many_bytes \<and>
            ReadBlock dc_tree ac_tree prev s = Inl Trying_to_read_many_bytes)"
proof (intro conjI impI)
  assume "dc_sz = 0"
  with assms show "ReadBlock_dc dc_tree prev s = Inr (prev, s1)"
    by (simp add: ReadBlock_dc_def)
next
  assume r: "1 \<le> unat dc_sz \<and> unat dc_sz \<le> 16"
  then have nz: "dc_sz \<noteq> 0" by (auto simp: unat_eq_0)
  from r have "ReadBitsSigned (unat dc_sz) s1 =
      bindE (ReadBits_loop (unat dc_sz) 0 s1) (\<lambda>(raw, s2).
        Inr (if bit raw (unat dc_sz - 1) then raw
             else word_of_int (uint raw - (2 ^ unat dc_sz - 1)), s2))"
    by (cases "ReadBits_loop (unat dc_sz) 0 s1")
       (auto simp: ReadBitsSigned_def ReadBits_def split: prod.splits)
  with assms nz show "ReadBlock_dc dc_tree prev s =
      bindE (ReadBits_loop (unat dc_sz) 0 s1) (\<lambda>(raw, s2).
        Inr (prev + (if bit raw (unat dc_sz - 1) then raw
                     else word_of_int (uint raw - (2 ^ unat dc_sz - 1))), s2))"
    by (cases "ReadBits_loop (unat dc_sz) 0 s1")
       (auto simp: ReadBlock_dc_def split: prod.splits)
next
  assume big: "16 < unat dc_sz"
  then have nz: "dc_sz \<noteq> 0" by (auto simp: unat_eq_0)
  from big have "ReadBitsSigned (unat dc_sz) s1 = Inl Trying_to_read_many_bytes"
    by (simp add: ReadBitsSigned_def ReadBits_def)
  with assms nz show dc: "ReadBlock_dc dc_tree prev s = Inl Trying_to_read_many_bytes"
    by (simp add: ReadBlock_dc_def)
  then show "ReadBlock dc_tree ac_tree prev s = Inl Trying_to_read_many_bytes"
    by (simp add: ReadBlock_def)
qed

theorem ReadBlock_dc_symbol_witness:
  "ReadBlock_dc (Node False None (Node True (Some 0) nullptr nullptr) nullptr) 5
     \<lparr>in_stream = [0x40, 0x00], buffer = 0, buffer_size = 0\<rparr> =
     Inr (5, \<lparr>in_stream = [0x00], buffer = 0x80, buffer_size = 7\<rparr>) \<and>
   ReadBlock_dc (Node False None (Node True (Some 12) nullptr nullptr) nullptr) 5
     \<lparr>in_stream = [0x40, 0x00], buffer = 0, buffer_size = 0\<rparr> =
     Inr (2053, \<lparr>in_stream = [], buffer = 0, buffer_size = 3\<rparr>) \<and>
   ReadBlock (Node False None (Node True (Some 17) nullptr nullptr) nullptr)
     (Node False None (Node True (Some 0) nullptr nullptr) nullptr) 5
     \<lparr>in_stream = [0x40, 0x00], buffer = 0, buffer_size = 0\<rparr> =
     Inl Trying_to_read_many_bytes"
proof -
  let ?s = "\<lparr>in_stream = [0x40, 0x00], buffer = 0, buffer_size = 0\<rparr>"
  let ?s1 = "\<lparr>in_stream = [0x00], buffer = 0x80, buffer_size = 7\<rparr>"
  have t0: "ReadFromHuffmanTree (Node False None (Node True (Some 0) nullptr nullptr) nullptr) ?s =
      Inr (0, ?s1)"
    by code_simp
  have t12: "ReadFromHuffmanTree (Node False None (Node True (Some 12) nullptr nullptr) nullptr) ?s =
      Inr (12, ?s1)"
    by code_simp
  have t17: "ReadFromHuffmanTree (Node False None (Node True (Some 17) nullptr nullptr) nullptr) ?s =
      Inr (17, ?s1)"
    by code_simp
  have bits: "ReadBits_loop 12 0 ?s1 =
      Inr (2048, \<lparr>in_stream = [], buffer = 0, buffer_size = 3\<rparr>)"
    by code_simp
  from ReadBlock_dc_symbol [OF t0, of 5]
  have 1: "ReadBlock_dc (Node False None (Node True (Some 0) nullptr nullptr) nullptr) 5 ?s =
      Inr (5, ?s1)"
    by simp
  from ReadBlock_dc_symbol [OF t12, of 5]
  have 2: "ReadBlock_dc (Node False None (Node True (Some 12) nullptr nullptr) nullptr) 5 ?s =
      Inr (2053, \<lparr>in_stream = [], buffer = 0, buffer_size = 3\<rparr>)"
    by (simp add: bits)
  from ReadBlock_dc_symbol
    [OF t17, of 5 "Node False None (Node True (Some 0) nullptr nullptr) nullptr"]
  have 3: "ReadBlock (Node False None (Node True (Some 17) nullptr nullptr) nullptr)
      (Node False None (Node True (Some 0) nullptr nullptr) nullptr) 5 ?s =
      Inl Trying_to_read_many_bytes"
    by simp
  from 1 2 3 show ?thesis by simp
qed

text \<open>
  Claim C3, as stated, fails: with a DC codebook whose only code, the bit 0, carries the
  symbol 12, the block decode succeeds and reads a 12-bit difference.
\<close>

theorem ReadBlock_accepts_dc_symbol_12:
  "ReadBlock (Node False None (Node True (Some 12) nullptr nullptr) nullptr)
             (Node False None (Node True (Some 0) nullptr nullptr) nullptr) 0
             \<lparr>in_stream = [0x40, 0x00], buffer = 0, buffer_size = 0\<rparr> =
   Inr (2048 # replicate 63 0, 2048, \<lparr>in_stream = [], buffer = 0, buffer_size = 2\<rparr>)"
  by code_simp

section \<open>Properties of the scan header\<close>

lemma read_spectral_selection_cons:
  assumes "buffer_size s = 0"
  shows "read_spectral_selection junk (s\<lparr>in_stream := ss # se # ah_al # rest\<rparr>) =
           (if se \<noteq> 63 then Inl Inconsistent_SOS_for_baseline_JPEG
            else Inr (s\<lparr>in_stream := rest\<rparr>))"
  using assms by (simp add: read_spectral_selection_def ReadByte_def)

lemma read_scan_body_parameters:
  assumes "buffer_size s = 0"
  shows "read_scan_body junk meta
           (sz, cnt, ids, dc_trees, ac_trees, s\<lparr>in_stream := ss # se # ah_al # rest\<rparr>) =
         (if sz < 3 then Inl Bad_SOS_header
          else if se \<noteq> 63 then Inl Inconsistent_SOS_for_baseline_JPEG
          else read_scan_body junk meta
                 (sz, cnt, ids, dc_trees, ac_trees, s\<lparr>in_stream := 0 # 63 # 0 # rest\<rparr>))"
  by (simp add: read_scan_body_def read_spectral_selection_cons [OF assms])

lemma read_scan_channel_cons:
  assumes "buffer_size s = 0"
  shows "read_scan_channel junk huffman_trees c
           (ids, dc_trees, ac_trees, s\<lparr>in_stream := cid # msk # rest\<rparr>) =
         (case huffman_trees (unat (GetPairHash (drop_bit 4 msk) True)) of
            None \<Rightarrow> Inl No_huffman_table_found
          | Some dc_tree \<Rightarrow>
              (case huffman_trees (unat (GetPairHash (msk AND 0xf) False)) of
                 None \<Rightarrow> Inl No_huffman_table_found
               | Some ac_tree \<Rightarrow>
                   Inr (ids[c := cid], dc_trees[c := dc_tree], ac_trees[c := ac_tree],
                        s\<lparr>in_stream := rest\<rparr>)))"
  using assms by (simp add: read_scan_channel_def ReadByte_def Let_def)

lemma for_loop_read_scan_channel:
  assumes "buffer_size s = 0"
  shows "length chans = 2 * k \<Longrightarrow>
         \<exists>R. \<forall>rest. for_loop i (i + k) (read_scan_channel junk huffman_trees)
                       (ids, dc_trees, ac_trees, s\<lparr>in_stream := chans @ rest\<rparr>) =
                     map_sum id (\<lambda>(a, b, c). (a, b, c, s\<lparr>in_stream := rest\<rparr>)) R"
proof (induction k arbitrary: i ids dc_trees ac_trees chans)
  case 0
  then have "\<forall>rest. for_loop i (i + 0) (read_scan_channel junk huffman_trees)
                (ids, dc_trees, ac_trees, s\<lparr>in_stream := chans @ rest\<rparr>) =
              map_sum id (\<lambda>(a, b, c). (a, b, c, s\<lparr>in_stream := rest\<rparr>))
                (Inr (ids, dc_trees, ac_trees))"
    by (simp add: for_loop_done)
  then show ?case by blast
next
  case (Suc k)
  from Suc.prems obtain cid msk chans' where
    chans: "chans = cid # msk # chans'" and len: "length chans' = 2 * k"
    by (cases chans; cases "tl chans") auto
  let ?body = "read_scan_channel junk huffman_trees"
  let ?set = "\<lambda>rest (a, b, c). (a, b, c, s\<lparr>in_stream := rest\<rparr>)"
  have step: "?body i (ids, dc_trees, ac_trees, s\<lparr>in_stream := chans @ rest\<rparr>) =
      (case huffman_trees (unat (GetPairHash (drop_bit 4 msk) True)) of
         None \<Rightarrow> Inl No_huffman_table_found
       | Some dc_tree \<Rightarrow>
           (case huffman_trees (unat (GetPairHash (msk AND 0xf) False)) of
              None \<Rightarrow> Inl No_huffman_table_found
            | Some ac_tree \<Rightarrow>
                Inr (ids[i := cid], dc_trees[i := dc_tree], ac_trees[i := ac_tree],
                     s\<lparr>in_stream := chans' @ rest\<rparr>)))" for rest
    using read_scan_channel_cons [OF assms, of junk huffman_trees i ids dc_trees ac_trees
        cid msk "chans' @ rest"]
    by (simp add: chans)
  show ?case
  proof (cases "huffman_trees (unat (GetPairHash (drop_bit 4 msk) True))")
    case None
    then have "\<forall>rest. for_loop i (i + Suc k) ?body
                  (ids, dc_trees, ac_trees, s\<lparr>in_stream := chans @ rest\<rparr>) =
                map_sum id (?set rest) (Inl No_huffman_table_found)"
      by (simp add: for_loop_step step)
    then show ?thesis by blast
  next
    case dc: (Some dc_tree)
    show ?thesis
    proof (cases "huffman_trees (unat (GetPairHash (msk AND 0xf) False))")
      case None
      with dc have "\<forall>rest. for_loop i (i + Suc k) ?body
                    (ids, dc_trees, ac_trees, s\<lparr>in_stream := chans @ rest\<rparr>) =
                  map_sum id (?set rest) (Inl No_huffman_table_found)"
        by (simp add: for_loop_step step)
      then show ?thesis by blast
    next
      case ac: (Some ac_tree)
      from Suc.IH [OF len, of "i + 1" "ids[i := cid]" "dc_trees[i := dc_tree]"
          "ac_trees[i := ac_tree]"]
      obtain R where R: "\<And>rest. for_loop (i + 1) (i + 1 + k) ?body
            (ids[i := cid], dc_trees[i := dc_tree], ac_trees[i := ac_tree],
             s\<lparr>in_stream := chans' @ rest\<rparr>) =
          map_sum id (?set rest) R"
        by blast
      have "\<forall>rest. for_loop i (i + Suc k) ?body
                (ids, dc_trees, ac_trees, s\<lparr>in_stream := chans @ rest\<rparr>) =
              map_sum id (?set rest) R"
        using dc ac R by (simp add: for_loop_step step)
      then show ?thesis by blast
    qed
  qed
qed

lemma read_scan_header_prefix:
  assumes "buffer_size s = 0" and "length chans = 2 * unat cnt"
  shows "\<exists>R. \<forall>rest. read_scan_header junk huffman_trees
                       (s\<lparr>in_stream := hi # lo # cnt # chans @ rest\<rparr>) =
                     map_sum id (\<lambda>(sz, n, a, b, c). (sz, n, a, b, c, s\<lparr>in_stream := rest\<rparr>)) R"
proof -
  let ?len = "word_of_bytes hi lo"
  let ?set = "\<lambda>rest (sz, n, a, b, c). (sz, n, a, b, c, s\<lparr>in_stream := rest\<rparr>)"
  have sz: "ReadSz junk (s\<lparr>in_stream := hi # lo # cnt # chans @ rest\<rparr>) =
      (if ?len < 2 then Inl Too_little_comment_section_size
       else Inr (?len - 2, s\<lparr>in_stream := cnt # chans @ rest\<rparr>))" for rest
    using assms(1) by (simp add: ReadSz_def ReadWord_def ReadByte_def word_of_bytes_def)
  have cnt: "ReadByte junk (s\<lparr>in_stream := cnt # chans @ rest\<rparr>) =
      Inr (cnt, s\<lparr>in_stream := chans @ rest\<rparr>)" for rest
    using assms(1) by (simp add: ReadByte_def)
  from for_loop_read_scan_channel [OF assms, of 0 junk huffman_trees
      "replicate (unat cnt) 0" "replicate (unat cnt) nullptr" "replicate (unat cnt) nullptr"]
  obtain L where L: "\<And>rest. for_loop 0 (unat cnt) (read_scan_channel junk huffman_trees)
        (replicate (unat cnt) 0, replicate (unat cnt) nullptr, replicate (unat cnt) nullptr,
         s\<lparr>in_stream := chans @ rest\<rparr>) =
      map_sum id (\<lambda>(a, b, c). (a, b, c, s\<lparr>in_stream := rest\<rparr>)) L"
    by auto
  let ?R = "if ?len < 2 then Inl Too_little_comment_section_size
            else if ?len - 2 < 1 then Inl No_info_about_channels_cnt
            else if uint (?len - 2 - 1) < uint cnt * 2 then Inl Bad_image_data_size
            else map_sum id (\<lambda>(a, b, c). (?len - 2 - 1 - ucast cnt * 2, cnt, a, b, c)) L"
  have "\<forall>rest. read_scan_header junk huffman_trees
            (s\<lparr>in_stream := hi # lo # cnt # chans @ rest\<rparr>) = map_sum id (?set rest) ?R"
    by (cases L) (auto simp: read_scan_header_def sz cnt L Let_def)
  then show ?thesis by blast
qed

text \<open>
  Claim C4, as the code has it. Of the three parameter bytes that end the scan header
  only the second, \<^verbatim>\<open>Se\<close>, is examined: when it differs from 63 the parse fails. The
  first, \<^verbatim>\<open>Ss\<close>, and the third, \<^verbatim>\<open>Ah << 4 | Al\<close>, are read and discarded: replacing them
  by any other bytes leaves the result of \<^verbatim>\<open>ReadImageData\<close> unchanged.
\<close>

theorem ReadImageData_checks_only_Se:
  assumes "length chans = 2 * unat cnt"
  shows "(se \<noteq> 63 \<longrightarrow>
            (\<exists>e. ReadImageData junk huffman_trees meta
                    (s\<lparr>in_stream := hi # lo # cnt # chans @ ss # se # ah_al # rest\<rparr>) = Inl e)) \<and>
         ReadImageData junk huffman_trees meta
           (s\<lparr>in_stream := hi # lo # cnt # chans @ ss # se # ah_al # rest\<rparr>) =
         ReadImageData junk huffman_trees meta
           (s\<lparr>in_stream := hi # lo # cnt # chans @ ss' # se # ah_al' # rest\<rparr>)"
proof (cases "buffer_size s = 0")
  case False
  then have "ReadImageData junk huffman_trees meta (s\<lparr>in_stream := bs\<rparr>) = Inl Bits_not_aligned"
    for bs
    by (simp add: ReadImageData_def read_scan_header_def ReadSz_def ReadWord_def ReadByte_def)
  then show ?thesis by simp
next
  case True
  from read_scan_header_prefix [OF True assms, of junk huffman_trees hi lo]
  obtain R where R: "\<And>rest. read_scan_header junk huffman_trees
        (s\<lparr>in_stream := hi # lo # cnt # chans @ rest\<rparr>) =
      map_sum id (\<lambda>(sz, n, a, b, c). (sz, n, a, b, c, s\<lparr>in_stream := rest\<rparr>)) R"
    by blast
  show ?thesis
  proof (cases R)
    case (Inl e)
    then show ?thesis by (simp add: ReadImageData_def R)
  next
    case (Inr hdr)
    obtain sz n a b c where hdr: "hdr = (sz, n, a, b, c)" by (cases hdr) auto
    have body: "ReadImageData junk huffman_trees meta
          (s\<lparr>in_stream := hi # lo # cnt # chans @ x # se # y # rest\<rparr>) =
        (if sz < 3 then Inl Bad_SOS_header
         else if se \<noteq> 63 then Inl Inconsistent_SOS_for_baseline_JPEG
         else read_scan_body junk meta (sz, n, a, b, c, s\<lparr>in_stream := 0 # 63 # 0 # rest\<rparr>))"
      for x y
      using read_scan_body_parameters [OF True, of junk meta sz n a b c x se y rest]
      by (simp add: ReadImageData_def R Inr hdr)
    show ?thesis by (simp add: body)
  qed
qed

theorem ReadImageData_checks_only_Se_witness:
  "(\<exists>e. ReadImageData 0 (\<lambda>i. if i \<le> 1 then
            Some (Node False None (Node True (Some 0) nullptr nullptr) nullptr) else None)
          \<lparr>precision = 8, channels_cnt = 1, height = 8, width = 8,
           channels = [\<lparr>channel_id = 1, ch_h = 1, ch_v = 1, quant_id = 0\<rparr>]\<rparr>
          \<lparr>in_stream = [0, 8, 1, 1, 0x00, 0, 62, 0, 0x00, 0xff, 0xd9],
           buffer = 0, buffer_size = 0\<rparr> = Inl e)"
proof -
  have len: "length [1, 0x00 :: 8 word] = 2 * unat (1 :: 8 word)" by simp
  from ReadImageData_checks_only_Se [OF len, where se = 62 and junk = 0
      and huffman_trees = "\<lambda>i. if i \<le> 1
            then Some (Node False None (Node True (Some 0) nullptr nullptr) nullptr) else None"
      and meta = "\<lparr>precision = 8, channels_cnt = 1, height = 8, width = 8,
            channels = [\<lparr>channel_id = 1, ch_h = 1, ch_v = 1, quant_id = 0\<rparr>]\<rparr>"
      and s = "\<lparr>in_stream = [], buffer = 0, buffer_size = 0\<rparr>"
      and hi = 0 and lo = 8 and ss = 0 and ah_al = 0 and rest = "[0x00, 0xff, 0xd9]"]
  show ?thesis by simp
qed

text \<open>
  Claim C4, as stated, fails: a scan header with \<^verbatim>\<open>Ss = 1\<close>, \<^verbatim>\<open>Se = 63\<close> and
  \<^verbatim>\<open>Ah << 4 | Al = 0x11\<close> is accepted and its scan is decoded.
\<close>

theorem ReadImageData_accepts_nonzero_Ss_and_Ah_Al:
  "ReadImageData 0 (\<lambda>i. if i \<le> 1 then
       Some (Node False None (Node True (Some 0) nullptr nullptr) nullptr) else None)
     \<lparr>precision = 8, channels_cnt = 1, height = 8, width = 8,
      channels = [\<lparr>channel_id = 1, ch_h = 1, ch_v = 1, quant_id = 0\<rparr>]\<rparr>
     \<lparr>in_stream = [0, 8, 1, 1, 0x00, 1, 63, 0x11, 0x00, 0xff, 0xd9],
      buffer = 0, buffer_size = 0\<rparr> =
   Inr (\<lparr>channel_matrix = [[replicate 64 0]], channel_ids = [1], mcu_h = 1, mcu_w = 1\<rparr>,
        \<lparr>in_stream = [0xff, 0xd9], buffer = 0, buffer_size = 6\<rparr>)"
  by code_simp

section \<open>Properties of the scan\<close>

lemma bindE_eq_Inr: "bindE m f = Inr y \<longleftrightarrow> (\<exists>x. m = Inr x \<and> f x = Inr y)"
  by (cases m) simp_all

lemma run_list_append: "run_list (fs @ gs) st = bindE (run_list fs st) (run_list gs)"
proof (induction fs arbitrary: st)
  case Nil
  then show ?case by simp
next
  case (Cons f fs)
  then show ?case by (cases "f st") simp_all
qed

lemma run_list_concat: "run_list (map (\<lambda>x. run_list (f x)) xs) st = run_list (concat (map f xs)) st"
proof (induction xs arbitrary: st)
  case Nil
  then show ?case by simp
next
  case (Cons x xs)
  have "run_list (map (\<lambda>x. run_list (f x)) xs) = run_list (concat (map f xs))"
    using Cons.IH by (intro ext)
  then show ?case by (simp add: run_list_append)
qed

lemma for_loop_run_list: "for_loop i n body st = run_list (map body [i..<n]) st"
proof (induction i n body st rule: for_loop.induct)
  case (1 i n body st)
  show ?case
  proof (cases "i < n")
    case True
    show ?thesis
    proof (cases "body i st")
      case (Inl e)
      with True show ?thesis by (simp add: for_loop_step upt_conv_Cons)
    next
      case (Inr st')
      with True have "for_loop (i + 1) n body st' = run_list (map body [i + 1..<n]) st'"
        by (intro 1) simp_all
      with True Inr show ?thesis by (simp add: for_loop_step upt_conv_Cons)
    qed
  next
    case False
    then show ?thesis by (simp add: for_loop_done)
  qed
qed

lemma for_loop_run_list_fun: "for_loop i n body = run_list (map body [i..<n])"
  by (intro ext) (rule for_loop_run_list)

lemma run_list_concat_fun: "run_list (map (\<lambda>x. run_list (f x)) xs) = run_list (concat (map f xs))"
  by (intro ext) (rule run_list_concat)

lemma read_mcus_order:
  "read_mcus dc_trees ac_trees channel_metadata n_mcu_h n_mcu_w n_channels =
   run_list (map (\<lambda>(mcu_y, mcu_x, c, block_v, block_h). read_block_of_channel dc_trees ac_trees c)
               (mcu_block_order channel_metadata n_mcu_h n_mcu_w n_channels))"
  unfolding read_mcus_def mcu_block_order_def for_loop_run_list_fun
  by (simp add: run_list_concat_fun map_concat comp_def)


lemma for_loop_count:
  assumes step: "\<And>j s s'. I s \<Longrightarrow> body j s = Inr s' \<Longrightarrow> I s' \<and> f s' = f s + d j"
  shows "I st \<Longrightarrow> for_loop i (i + k) body st = Inr st' \<Longrightarrow>
         I st' \<and> f st' = f st + (\<Sum>j = i..<i + k. d j :: nat)"
proof (induction k arbitrary: i st)
  case 0
  then show ?case by (simp add: for_loop_done)
next
  case (Suc k)
  from Suc.prems(2) obtain s1 where
    b: "body i st = Inr s1" and rest: "for_loop (i + 1) (i + 1 + k) body s1 = Inr st'"
    by (auto simp: for_loop_step bindE_eq_Inr)
  from step [OF Suc.prems(1) b] have I1: "I s1" and f1: "f s1 = f st + d i" by simp_all
  from Suc.IH [OF I1 rest] have "I st'" and "f st' = f s1 + (\<Sum>j = i + 1..<i + 1 + k. d j)"
    by simp_all
  with f1 show ?case by (simp add: sum.atLeast_Suc_lessThan)
qed

lemma for_loop_count_0:
  assumes "\<And>j s s'. I s \<Longrightarrow> body j s = Inr s' \<Longrightarrow> I s' \<and> f s' = f s + d j"
    and "I st" and "for_loop 0 n body st = Inr st'"
  shows "I st' \<and> f st' = f st + (\<Sum>j = 0..<n. d j :: nat)"
  using for_loop_count [of I body f d st 0 n st'] assms by simp

lemma read_block_of_channel_count:
  assumes "length (matrix s) = N"
    and "read_block_of_channel dc_trees ac_trees c s = Inr s'"
  shows "length (matrix s') = N \<and>
         length (matrix s' ! c') =
           length (matrix s ! c') + (if c = c' \<and> c' < N then 1 else 0)"
proof -
  from assms(2) obtain block where
    m: "matrix s' = (matrix s)[c := matrix s ! c @ [block]]"
    by (auto simp: read_block_of_channel_def bindE_eq_Inr)
  show ?thesis
  proof (cases "c = c'")
    case True
    show ?thesis
    proof (cases "c' < N")
      case True
      with \<open>c = c'\<close> assms(1) m show ?thesis by simp
    next
      case False
      with \<open>c = c'\<close> assms(1) m show ?thesis by (simp add: list_update_beyond)
    qed
  next
    case False
    with assms(1) m show ?thesis by simp
  qed
qed

lemma read_mcus_count:
  assumes len: "length (matrix st) = N"
    and run: "read_mcus dc_trees ac_trees channel_metadata n_mcu_h n_mcu_w n_channels st = Inr st'"
  shows "length (matrix st') = N \<and>
         length (matrix st' ! c') = length (matrix st ! c') +
           n_mcu_h * (n_mcu_w * (if c' < n_channels \<and> c' < N
              then unat (ch_v (channel_metadata ! c')) * unat (ch_h (channel_metadata ! c'))
              else 0))"
proof -
  let ?I = "\<lambda>s. length (matrix s) = N"
  let ?f = "\<lambda>s. length (matrix s ! c')"
  let ?v = "\<lambda>c. unat (ch_v (channel_metadata ! c))"
  let ?h = "\<lambda>c. unat (ch_h (channel_metadata ! c))"
  let ?blk = "\<lambda>c. read_block_of_channel dc_trees ac_trees c"
  let ?row = "\<lambda>c. for_loop 0 (?h c) (\<lambda>block_h. ?blk c)"
  let ?chan = "\<lambda>c. for_loop 0 (?v c) (\<lambda>block_v. ?row c)"
  let ?mcu = "for_loop 0 n_channels ?chan"
  let ?mcu_row = "for_loop 0 n_mcu_w (\<lambda>mcu_x. ?mcu)"
  have blk: "?I s' \<and> ?f s' = ?f s + (if c = c' \<and> c' < N then 1 else 0)"
    if "?I s" and "?blk c s = Inr s'" for c s s'
    using read_block_of_channel_count [OF that] .
  have row: "?I s' \<and> ?f s' = ?f s + (if c = c' \<and> c' < N then ?h c else 0)"
    if "?I s" and "?row c s = Inr s'" for c s s'
    using for_loop_count_0 [of ?I "\<lambda>block_h. ?blk c" ?f "\<lambda>j. if c = c' \<and> c' < N then 1 else 0",
        OF blk that]
    by simp
  have chan: "?I s' \<and> ?f s' = ?f s + (if c = c' then if c' < N then ?v c * ?h c else 0 else 0)"
    if "?I s" and "?chan c s = Inr s'" for c s s'
    using for_loop_count_0 [of ?I "\<lambda>block_v. ?row c" ?f
        "\<lambda>j. if c = c' \<and> c' < N then ?h c else 0", OF row that]
    by simp
  have mcu: "?I s' \<and> ?f s' = ?f s + (if c' < n_channels \<and> c' < N then ?v c' * ?h c' else 0)"
    if "?I s" and "?mcu s = Inr s'" for s s'
    using for_loop_count_0 [of ?I ?chan ?f
        "\<lambda>c. if c = c' then if c' < N then ?v c * ?h c else 0 else 0", OF chan that]
    by (simp add: sum.delta)
  have mcu_row: "?I s' \<and>
      ?f s' = ?f s + n_mcu_w * (if c' < n_channels \<and> c' < N then ?v c' * ?h c' else 0)"
    if "?I s" and "?mcu_row s = Inr s'" for s s'
    using for_loop_count_0 [of ?I "\<lambda>mcu_x. ?mcu" ?f
        "\<lambda>j. if c' < n_channels \<and> c' < N then ?v c' * ?h c' else 0", OF mcu that]
    by simp
  from run have "for_loop 0 n_mcu_h (\<lambda>mcu_y. ?mcu_row) st = Inr st'"
    by (simp add: read_mcus_def)
  from for_loop_count_0 [of ?I "\<lambda>mcu_y. ?mcu_row" ?f
      "\<lambda>j. n_mcu_w * (if c' < n_channels \<and> c' < N then ?v c' * ?h c' else 0)",
      OF mcu_row len this]
  show ?thesis by simp
qed

lemma ceil_div_int:
  fixes a b :: int
  assumes "0 < b"
  shows "- ((- a) div b) = (a + b - 1) div b"
proof -
  define q where "q = a div b"
  define r where "r = a mod b"
  have a: "a = b * q + r" by (simp add: q_def r_def)
  have r: "0 \<le> r" "r < b" using assms by (simp_all add: r_def)
  show ?thesis
  proof (cases "r = 0")
    case True
    have "(b * q + (b - 1)) div b = q + (b - 1) div b"
      using assms by (simp add: div_mult_self4)
    also have "(b - 1) div b = 0" using assms by (simp add: div_pos_pos_trivial)
    finally have "(a + b - 1) div b = q" using True a by (simp add: algebra_simps)
    moreover have "(b * (- q)) div b = - q"
      using assms by (intro nonzero_mult_div_cancel_left) simp
    then have "(- a) div b = - q" using True a by simp
    ultimately show ?thesis by simp
  next
    case False
    have "(b * (q + 1) + (r - 1)) div b = (q + 1) + (r - 1) div b"
      using assms by (simp only: div_mult_self4) 
    also have "(r - 1) div b = 0" using r False by (simp add: div_pos_pos_trivial)
    finally have 1: "(a + b - 1) div b = q + 1" using a by (simp add: algebra_simps)
    have "(b * (- q - 1) + (b - r)) div b = (- q - 1) + (b - r) div b"
      using assms by (simp only: div_mult_self4)
    also have "(b - r) div b = 0" using r False by (simp add: div_pos_pos_trivial)
    finally have "(- a) div b = - q - 1" using a by (simp add: algebra_simps)
    with 1 show ?thesis by simp
  qed
qed

lemma ceil_div_nat:
  fixes a b :: nat
  assumes "0 < b"
  shows "nat \<lceil>real a / real b\<rceil> = (a + b - 1) div b"
proof -
  have "\<lceil>real a / real b\<rceil> = \<lceil>real_of_int (int a) / real_of_int (int b)\<rceil>" by simp
  also have "\<dots> = - ((- int a) div int b)" by (rule ceiling_divide_eq_div)
  also have "\<dots> = (int a + int b - 1) div int b" using assms by (intro ceil_div_int) simp
  also have "int a + int b - 1 = int (a + b - 1)" using assms by (simp add: of_nat_diff)
  also have "int (a + b - 1) div int b = int ((a + b - 1) div b)" by (simp add: zdiv_int)
  finally show ?thesis by simp
qed

lemma mcu_count_word:
  fixes d :: "16 word" and m :: "8 word"
  assumes "m \<noteq> 0"
  shows "unat (word_of_int ((uint d + 8 * uint m - 1) div (8 * uint m)) :: 16 word) =
         (unat d + 8 * unat m - 1) div (8 * unat m)"
proof -
  have m: "0 < unat m" using assms by (simp add: unat_gt_0)
  have "unat d < 2 ^ LENGTH(16)" by (rule unsigned_less)
  then have dlt: "unat d < 65536" by simp
  let ?N = "(unat d + 8 * unat m - 1) div (8 * unat m)"
  have "uint d + 8 * uint m - 1 = int (unat d + 8 * unat m - 1)"
    using m by (simp add: of_nat_diff)
  then have "(uint d + 8 * uint m - 1) div (8 * uint m) = int ?N"
    by (simp add: zdiv_int)
  then have w: "(word_of_int ((uint d + 8 * uint m - 1) div (8 * uint m)) :: 16 word) = of_nat ?N"
    by simp
  have le: "unat d \<le> unat d * (8 * unat m)" using m by simp
  have e: "(unat d + 1) * (8 * unat m) = unat d * (8 * unat m) + 8 * unat m"
    by (simp add: algebra_simps)
  have "unat d + 8 * unat m - 1 < (unat d + 1) * (8 * unat m)"
    unfolding e using le m by linarith
  then have "?N < unat d + 1" by (rule less_mult_imp_div_less)
  with dlt have "?N < 2 ^ LENGTH(16)" by simp
  then have "unat (of_nat ?N :: 16 word) = ?N" by (intro of_nat_inverse) simp_all
  with w show ?thesis by simp
qed


lemma mcu_count_ceiling:
  fixes d :: "16 word" and m :: "8 word"
  assumes "m \<noteq> 0"
  shows "unat (word_of_int ((uint d + 8 * uint m - 1) div (8 * uint m)) :: 16 word) =
         nat \<lceil>real (unat d) / real (8 * unat m)\<rceil>"
proof -
  have "0 < 8 * unat m" using assms by (simp add: unat_gt_0)
  then have "nat \<lceil>real (unat d) / real (8 * unat m)\<rceil> =
      (unat d + 8 * unat m - 1) div (8 * unat m)"
    by (rule ceil_div_nat)
  with mcu_count_word [OF assms, of d] show ?thesis by simp
qed

lemma fold_max_Max:
  fixes f :: "'a \<Rightarrow> 'b :: linorder"
  shows "fold (\<lambda>c m. max m (f c)) xs a = Max (insert a (f ` set xs))"
proof (induction xs arbitrary: a)
  case Nil
  then show ?case by simp
next
  case (Cons x xs)
  have "fold (\<lambda>c m. max m (f c)) (x # xs) a = Max (insert (max a (f x)) (f ` set xs))"
    using Cons.IH by simp
  also have "\<dots> = Max (insert a (insert (f x) (f ` set xs)))"
  proof (cases "set xs = {}")
    case True
    then show ?thesis by (simp add: max.commute)
  next
    case False
    then show ?thesis by (simp add: max.assoc)
  qed
  finally show ?case by simp
qed

lemma fold_max_word:
  fixes f :: "'a \<Rightarrow> 8 word"
  assumes "fold (\<lambda>c m. max m (f c)) xs 0 \<noteq> 0"
  shows "xs \<noteq> [] \<and> fold (\<lambda>c m. max m (f c)) xs 0 = Max (f ` set xs)"
proof -
  from assms have ne: "xs \<noteq> []" by auto
  then have "Max (insert 0 (f ` set xs)) = max 0 (Max (f ` set xs))"
    by (simp add: Max_insert)
  also have "\<dots> = Max (f ` set xs)" by (simp add: max_def)
  finally show ?thesis using ne by (simp add: fold_max_Max)
qed

lemma for_loop_channel_metadata:
  "for_loop i (i + k) (\<lambda>c cm. bindE (G c) (\<lambda>m. Inr (cm @ [m]))) acc = Inr cms \<Longrightarrow>
   \<exists>ms. cms = acc @ ms \<and> length ms = k \<and> (\<forall>j<k. G (i + j) = Inr (ms ! j))"
proof (induction k arbitrary: i acc)
  case 0
  then show ?case by (simp add: for_loop_done)
next
  case (Suc k)
  from Suc.prems obtain m where
    g: "G i = Inr m" and
    rest: "for_loop (i + 1) (i + 1 + k) (\<lambda>c cm. bindE (G c) (\<lambda>m. Inr (cm @ [m]))) (acc @ [m]) =
             Inr cms"
    by (auto simp: for_loop_step bindE_eq_Inr)
  from Suc.IH [OF rest] obtain ms where
    ms: "cms = (acc @ [m]) @ ms" "length ms = k" "\<forall>j<k. G (i + 1 + j) = Inr (ms ! j)"
    by blast
  have "\<forall>j<Suc k. G (i + j) = Inr ((m # ms) ! j)"
  proof (intro allI impI)
    fix j assume "j < Suc k"
    then show "G (i + j) = Inr ((m # ms) ! j)"
      using g ms(3) by (cases j) auto
  qed
  with ms show ?case by (intro exI [of _ "m # ms"]) simp
qed

lemma read_scan_channel_length:
  assumes "read_scan_channel junk huffman_trees c (ids, dcs, acs, s) = Inr (ids', dcs', acs', s')"
  shows "length ids' = length ids"
proof -
  from assms obtain cid s1 where 1: "ReadByte junk s = Inr (cid, s1)"
    by (cases "ReadByte junk s") (auto simp: read_scan_channel_def)
  from assms 1 obtain msk s2 where 2: "ReadByte junk s1 = Inr (msk, s2)"
    by (cases "ReadByte junk s1") (auto simp: read_scan_channel_def)
  from assms 1 2 obtain dc where
    3: "huffman_trees (unat (GetPairHash (drop_bit 4 msk) True)) = Some dc"
    by (cases "huffman_trees (unat (GetPairHash (drop_bit 4 msk) True))")
       (auto simp: read_scan_channel_def Let_def)
  from assms 1 2 3 obtain ac where
    4: "huffman_trees (unat (GetPairHash (msk AND 0xf) False)) = Some ac"
    by (cases "huffman_trees (unat (GetPairHash (msk AND 0xf) False))")
       (auto simp: read_scan_channel_def Let_def)
  from assms 1 2 3 4 have "ids' = ids[c := cid]"
    by (simp add: read_scan_channel_def Let_def)
  then show ?thesis by simp
qed

lemma for_loop_read_scan_channel_length:
  assumes "for_loop 0 n (read_scan_channel junk huffman_trees) (ids, dcs, acs, s) =
             Inr (ids', dcs', acs', s')"
  shows "length ids' = length ids"
proof -
  let ?I = "\<lambda>(a, b, c, d). length (a :: 8 word list) = length ids"
  have step: "?I t' \<and> (0 :: nat) = 0 + 0"
    if "?I t" and "read_scan_channel junk huffman_trees j t = Inr t'" for j t t'
    using that by (cases t; cases t') (auto dest: read_scan_channel_length)
  from for_loop_count_0 [of ?I "read_scan_channel junk huffman_trees" "\<lambda>t. 0" "\<lambda>j. 0", OF step _ assms]
  show ?thesis by simp
qed

text \<open>
  Claim C2. Let the scan branch of \<^verbatim>\<open>ReadRawImage\<close> succeed. Then the bit source has been
  aligned: its bit buffer is empty. The frame has a channel, and the numbers of MCU rows
  and columns are the height and the width divided by 8 times the largest vertical and
  horizontal sampling factor of the frame, rounded up. For every channel of the scan the
  channel is known to the frame, with factors \<open>h\<close> and \<open>v\<close>, and exactly
  \<open>mcu_w * mcu_h * h * v\<close> blocks have been decoded for it. The loops decode the blocks in
  the order MCU row, MCU column, channel, block row, block column: they are the
  sequential run of one block decode per entry of \<open>mcu_block_order\<close>.
\<close>

theorem ReadImageData_block_counts:
  assumes ok: "ReadRawImage_Data junk huffman_trees (Some meta) s = Inr (image_data, s')"
  shows "buffer_size s' = 0 \<and> buffer s' = 0 \<and>
         channels meta \<noteq> [] \<and>
         unat (mcu_h image_data) =
           nat \<lceil>real (unat (height meta)) /
                 real (8 * unat (Max (ch_v ` set (channels meta))))\<rceil> \<and>
         unat (mcu_w image_data) =
           nat \<lceil>real (unat (width meta)) /
                 real (8 * unat (Max (ch_h ` set (channels meta))))\<rceil> \<and>
         length (channel_matrix image_data) = length (channel_ids image_data) \<and>
         (\<forall>c < length (channel_ids image_data).
            \<exists>m. GetMetaByChannelId meta (channel_ids image_data ! c) = Inr m \<and>
                length (channel_matrix image_data ! c) =
                  unat (mcu_w image_data) * unat (mcu_h image_data) *
                  unat (ch_h m) * unat (ch_v m)) \<and>
         read_mcus dc_trees ac_trees channel_metadata n_mcu_h n_mcu_w n_channels =
           run_list
             (map (\<lambda>(mcu_y, mcu_x, c, block_v, block_h). read_block_of_channel dc_trees ac_trees c)
                (mcu_block_order channel_metadata n_mcu_h n_mcu_w n_channels))"
proof -
  from ok obtain s2 where
    rid: "ReadImageData junk huffman_trees meta s = Inr (image_data, s2)" and s': "s' = Align s2"
    by (auto simp: ReadRawImage_Data_def bindE_eq_Inr)
  from rid obtain sz cnt ids dcs acs s3 where
    hdr: "read_scan_header junk huffman_trees s = Inr (sz, cnt, ids, dcs, acs, s3)" and
    body: "read_scan_body junk meta (sz, cnt, ids, dcs, acs, s3) = Inr (image_data, s2)"
    by (auto simp: ReadImageData_def bindE_eq_Inr)
  from hdr obtain s4 where
    "for_loop 0 (unat cnt) (read_scan_channel junk huffman_trees)
       (replicate (unat cnt) 0, replicate (unat cnt) nullptr, replicate (unat cnt) nullptr, s4) =
     Inr (ids, dcs, acs, s3)"
    by (auto simp: read_scan_header_def bindE_eq_Inr Let_def split: if_splits)
  then have len_ids: "length ids = unat cnt"
    by (auto dest: for_loop_read_scan_channel_length)
  let ?h_max = "fold (\<lambda>c m. max m (ch_h c)) (channels meta) 0"
  let ?v_max = "fold (\<lambda>c m. max m (ch_v c)) (channels meta) 0"
  let ?n_mcu_h = "word_of_int ((uint (height meta) + 8 * uint ?v_max - 1) div (8 * uint ?v_max)) :: 16 word"
  let ?n_mcu_w = "word_of_int ((uint (width meta) + 8 * uint ?h_max - 1) div (8 * uint ?h_max)) :: 16 word"
  from body obtain s5 cms st where
    hv: "?h_max \<noteq> 0" "?v_max \<noteq> 0" and
    cms: "for_loop 0 (unat cnt)
            (\<lambda>c channel_metadata. bindE (GetMetaByChannelId meta (ids ! c)) (\<lambda>m.
               Inr (channel_metadata @ [m]))) [] = Inr cms" and
    run: "read_mcus dcs acs cms (unat ?n_mcu_h) (unat ?n_mcu_w) (unat cnt)
            \<lparr>reader = s5, prev_dc = replicate (unat cnt) 0, matrix = replicate (unat cnt) []\<rparr> =
          Inr st" and
    img: "image_data = \<lparr>channel_matrix = matrix st, channel_ids = ids,
                         mcu_h = ?n_mcu_h, mcu_w = ?n_mcu_w\<rparr>"
    by (auto simp: read_scan_body_def bindE_eq_Inr Let_def split: if_splits)
  from fold_max_word [OF hv(1)] have H: "channels meta \<noteq> []"
    "?h_max = Max (ch_h ` set (channels meta))" by simp_all
  from fold_max_word [OF hv(2)] have V: "?v_max = Max (ch_v ` set (channels meta))" by simp
  have mh: "unat ?n_mcu_h = nat \<lceil>real (unat (height meta)) / real (8 * unat ?v_max)\<rceil>"
    using hv(2) by (rule mcu_count_ceiling)
  have mw: "unat ?n_mcu_w = nat \<lceil>real (unat (width meta)) / real (8 * unat ?h_max)\<rceil>"
    using hv(1) by (rule mcu_count_ceiling)
  from for_loop_channel_metadata [of 0 "unat cnt" "\<lambda>c. GetMetaByChannelId meta (ids ! c)" "[]" cms]
    cms
  have cm: "length cms = unat cnt" "\<forall>j<unat cnt. GetMetaByChannelId meta (ids ! j) = Inr (cms ! j)"
    by auto
  have counts: "length (matrix st ! c) =
        unat ?n_mcu_h * (unat ?n_mcu_w * (unat (ch_v (cms ! c)) * unat (ch_h (cms ! c))))"
    if "c < unat cnt" for c
    using read_mcus_count [OF _ run, of "unat cnt" c] that by simp
  have len_m: "length (matrix st) = unat cnt"
    using read_mcus_count [OF _ run, of "unat cnt" 0] by simp
  have per_channel: "\<forall>c < length (channel_ids image_data).
      \<exists>m. GetMetaByChannelId meta (channel_ids image_data ! c) = Inr m \<and>
          length (channel_matrix image_data ! c) =
            unat (mcu_w image_data) * unat (mcu_h image_data) * unat (ch_h m) * unat (ch_v m)"
  proof (intro allI impI)
    fix c assume "c < length (channel_ids image_data)"
    then have c: "c < unat cnt" by (simp add: img len_ids)
    with cm(2) have "GetMetaByChannelId meta (channel_ids image_data ! c) = Inr (cms ! c)"
      by (simp add: img)
    moreover from counts [OF c] have "length (channel_matrix image_data ! c) =
        unat (mcu_w image_data) * unat (mcu_h image_data) *
        unat (ch_h (cms ! c)) * unat (ch_v (cms ! c))"
      by (simp add: img mult_ac)
    ultimately show "\<exists>m. GetMetaByChannelId meta (channel_ids image_data ! c) = Inr m \<and>
        length (channel_matrix image_data ! c) =
          unat (mcu_w image_data) * unat (mcu_h image_data) * unat (ch_h m) * unat (ch_v m)"
      by blast
  qed
  have "buffer_size s' = 0 \<and> buffer s' = 0" by (simp add: s' Align_def)
  moreover have "unat (mcu_h image_data) =
      nat \<lceil>real (unat (height meta)) / real (8 * unat (Max (ch_v ` set (channels meta))))\<rceil>"
    using mh V by (simp add: img)
  moreover have "unat (mcu_w image_data) =
      nat \<lceil>real (unat (width meta)) / real (8 * unat (Max (ch_h ` set (channels meta))))\<rceil>"
    using mw H(2) by (simp add: img)
  moreover have "length (channel_matrix image_data) = length (channel_ids image_data)"
    by (simp add: img len_m len_ids)
  ultimately show ?thesis
    using H(1) per_channel read_mcus_order by blast
qed

theorem ReadImageData_block_counts_witness:
  "ReadRawImage_Data 0
     (\<lambda>i. if i \<le> 1 then Some (Node False None (Node True (Some 0) nullptr nullptr) nullptr)
          else None)
     (Some \<lparr>precision = 8, channels_cnt = 2, height = 8, width = 17,
            channels = [\<lparr>channel_id = 1, ch_h = 2, ch_v = 1, quant_id = 0\<rparr>,
                        \<lparr>channel_id = 2, ch_h = 1, ch_v = 1, quant_id = 0\<rparr>]\<rparr>)
     \<lparr>in_stream = [0, 10, 2, 1, 0x00, 2, 0x00, 0, 63, 0, 0x00, 0x00, 0xff, 0xd9],
      buffer = 0, buffer_size = 0\<rparr> =
   Inr (\<lparr>channel_matrix = [replicate 4 (replicate 64 0), replicate 2 (replicate 64 0)],
         channel_ids = [1, 2], mcu_h = 1, mcu_w = 2\<rparr>,
        \<lparr>in_stream = [0xff, 0xd9], buffer = 0, buffer_size = 0\<rparr>) \<and>
   buffer_size \<lparr>in_stream = [0xff, 0xd9], buffer = 0, buffer_size = 0\<rparr> = 0 \<and>
   length (channel_matrix
     \<lparr>channel_matrix = [replicate 4 (replicate 64 0), replicate 2 (replicate 64 0)],
      channel_ids = [1, 2], mcu_h = 1, mcu_w = 2 :: 16 word\<rparr>) = 2"
proof -
  have ev: "ReadRawImage_Data 0
     (\<lambda>i. if i \<le> 1 then Some (Node False None (Node True (Some 0) nullptr nullptr) nullptr)
          else None)
     (Some \<lparr>precision = 8, channels_cnt = 2, height = 8, width = 17,
            channels = [\<lparr>channel_id = 1, ch_h = 2, ch_v = 1, quant_id = 0\<rparr>,
                        \<lparr>channel_id = 2, ch_h = 1, ch_v = 1, quant_id = 0\<rparr>]\<rparr>)
     \<lparr>in_stream = [0, 10, 2, 1, 0x00, 2, 0x00, 0, 63, 0, 0x00, 0x00, 0xff, 0xd9],
      buffer = 0, buffer_size = 0\<rparr> =
   Inr (\<lparr>channel_matrix = [replicate 4 (replicate 64 0), replicate 2 (replicate 64 0)],
         channel_ids = [1, 2], mcu_h = 1, mcu_w = 2\<rparr>,
        \<lparr>in_stream = [0xff, 0xd9], buffer = 0, buffer_size = 0\<rparr>)"
    by code_simp
  from ReadImageData_block_counts [OF ev]
  have "buffer_size \<lparr>in_stream = [0xff, 0xd9], buffer = 0, buffer_size = 0\<rparr> = 0"
    and "length (channel_matrix
       \<lparr>channel_matrix = [replicate 4 (replicate 64 0), replicate 2 (replicate 64 0)],
        channel_ids = [1, 2], mcu_h = 1, mcu_w = 2 :: 16 word\<rparr>) =
      length (channel_ids
       \<lparr>channel_matrix = [replicate 4 (replicate 64 (0 :: 16 word)),
                           replicate 2 (replicate 64 0)],
        channel_ids = [1, 2], mcu_h = 1, mcu_w = 2 :: 16 word\<rparr>)"
    by blast+
  with ev show ?thesis by simp
qed

section \<open>Properties of the reconstruction\<close>

lemma redft01_dc:
  assumes "\<forall>j. 1 \<le> j \<and> j < length X \<longrightarrow> X ! j = 0"
  shows "redft01 X = replicate (length X) (X ! 0)"
proof -
  have "(\<Sum>j = 1..<length X. X ! j * cos (pi * real j * (real k + 1 / 2) / real (length X))) = 0"
    for k
    using assms by (intro sum.neutral) simp
  then show ?thesis by (simp add: redft01_def map_replicate_const)
qed

lemma redft01_2d_dc:
  assumes n: "0 < n" and z: "\<forall>k. 0 < k \<and> k < n * n \<longrightarrow> X ! k = 0"
  shows "redft01_2d n X = replicate (n * n) (X ! 0)"
proof -
  define row where "row i = map (\<lambda>j. X ! (i * n + j)) [0..<n]" for i
  define rows where "rows = map (\<lambda>i. redft01 (row i)) [0..<n]"
  define col where "col k = map (\<lambda>i. rows ! i ! k) [0..<n]" for k
  define cols where "cols = map (\<lambda>k. redft01 (col k)) [0..<n]"
  have in_range: "i * n + j < n * n" if "i < n" "j < n" for i j
  proof -
    have "i * n + j < i * n + n" using that by simp
    also have "\<dots> = (i + 1) * n" by simp
    also have "\<dots> \<le> n * n" using that(1) by (intro mult_le_mono1) simp
    finally show ?thesis .
  qed
  have row_len: "length (row i) = n" for i by (simp add: row_def)
  have row0: "redft01 (row 0) = replicate n (X ! 0)"
  proof -
    have "\<forall>j. 1 \<le> j \<and> j < length (row 0) \<longrightarrow> row 0 ! j = 0"
      using z n in_range [of 0] by (simp add: row_def)
    from redft01_dc [OF this] show ?thesis using n by (simp add: row_def)
  qed
  have rowi: "redft01 (row i) = replicate n 0" if "0 < i" "i < n" for i
  proof -
    have zi: "row i ! j = 0" if "j < n" for j
      using z \<open>0 < i\<close> \<open>i < n\<close> that in_range [of i j] by (simp add: row_def)
    then have "\<forall>j. 1 \<le> j \<and> j < length (row i) \<longrightarrow> row i ! j = 0"
      by (simp add: row_len)
    from redft01_dc [OF this] zi [OF n] show ?thesis by (simp add: row_len)
  qed
  have rows: "rows ! i ! k = (if i = 0 then X ! 0 else 0)" if "i < n" "k < n" for i k
  proof (cases "i = 0")
    case True
    with that row0 show ?thesis by (simp add: rows_def)
  next
    case False
    with that rowi [of i] show ?thesis by (simp add: rows_def)
  qed
  have col_len: "length (col k) = n" for k by (simp add: col_def)
  have col: "redft01 (col k) = replicate n (X ! 0)" if "k < n" for k
  proof -
    have c0: "col k ! 0 = X ! 0" using rows [of 0 k] n that by (simp add: col_def)
    have "\<forall>j. 1 \<le> j \<and> j < length (col k) \<longrightarrow> col k ! j = 0"
      using rows that by (simp add: col_def)
    from redft01_dc [OF this] show ?thesis by (simp only: col_len c0)
  qed
  have "redft01_2d n X = map (\<lambda>idx. cols ! (idx mod n) ! (idx div n)) [0..<n * n]"
    by (simp add: redft01_2d_def Let_def cols_def col_def rows_def row_def)
  also have "\<dots> = map (\<lambda>idx. X ! 0) [0..<n * n]"
  proof (rule map_cong [OF refl])
    fix idx assume "idx \<in> set [0..<n * n]"
    then have "idx mod n < n" "idx div n < n"
      using n by (simp_all add: less_mult_imp_div_less)
    then show "cols ! (idx mod n) ! (idx div n) = X ! 0"
      by (simp add: cols_def col)
  qed
  finally show ?thesis by (simp add: map_replicate_const)
qed

lemma Inverse_dc:
  assumes "length input = 64" and "\<forall>k. 0 < k \<and> k < 64 \<longrightarrow> input ! k = 0"
  shows "Inverse 8 input = replicate 64 (input ! 0 / 8)"
proof -
  let ?X = "map (\<lambda>i. let x = input ! i / 16;
                        x = (if i < 8 then x * sqrt 2 else x);
                        x = (if i mod 8 = 0 then x * sqrt 2 else x)
                    in x) [0..<8 * 8]"
  have z: "\<forall>k. 0 < k \<and> k < 8 * 8 \<longrightarrow> ?X ! k = 0"
    using assms(2) by (simp add: Let_def)
  have "?X ! 0 = input ! 0 / 16 * sqrt 2 * sqrt 2" by (simp add: Let_def)
  also have "\<dots> = input ! 0 / 16 * (sqrt 2 * sqrt 2)" by (simp only: mult.assoc)
  also have "\<dots> = input ! 0 / 8" by simp
  finally have x0: "?X ! 0 = input ! 0 / 8" .
  have "Inverse 8 input = redft01_2d 8 ?X" by (simp add: Inverse_def)
  also have "\<dots> = replicate (8 * 8) (?X ! 0)" using z by (intro redft01_2d_dc) simp_all
  finally show ?thesis by (simp only: x0) simp
qed

lemma IDCT_block_dc_64:
  "IDCT_block (64 # replicate 63 0) = Inr (replicate 64 8)"
proof -
  let ?input = "map (\<lambda>c. real_of_int (sint c)) (64 # replicate 63 (0 :: 16 word))"
  have "\<forall>k. 0 < k \<and> k < 64 \<longrightarrow> ?input ! k = 0"
    by (auto simp: nth_Cons split: nat.splits)
  then have "Inverse 8 ?input = replicate 64 (?input ! 0 / 8)"
    by (intro Inverse_dc) simp_all
  then have "Inverse 8 ?input = replicate 64 8" by simp
  then show ?thesis by (simp add: IDCT_block_def std_round_def)
qed

lemma jpeg_idct_sample_dc:
  "jpeg_idct_sample (\<lambda>v u. if v = 0 \<and> u = 0 then d else 0) y x = d / 8"
proof -
  let ?S = "\<lambda>v u. if v = 0 \<and> u = 0 then d else (0 :: real)"
  let ?t = "\<lambda>u v. (if u = 0 then 1 / sqrt 2 else 1) * (if v = 0 then 1 / sqrt 2 else 1) * ?S v u *
        cos ((2 * real x + 1) * real u * pi / 16) * cos ((2 * real y + 1) * real v * pi / 16)"
  have t: "?t u v = (if v = 0 then if u = 0 then d / 2 else 0 else 0)" for u v :: nat
  proof -
    have "1 / sqrt 2 * (1 / sqrt 2) = 1 / (sqrt 2 * sqrt 2)" by simp
    also have "\<dots> = 1 / 2" by simp
    finally have "1 / sqrt 2 * (1 / sqrt 2) * d = d / 2" by simp
    then show ?thesis by simp
  qed
  have inner: "(\<Sum>v<8. ?t u v) = (if u = 0 then d / 2 else 0)" for u :: nat
    by (simp only: t sum.delta finite_lessThan) simp
  have "jpeg_idct_sample ?S y x = 1 / 4 * (\<Sum>u<8. \<Sum>v<8. ?t u v)"
    by (simp only: jpeg_idct_sample_def)
  also have "\<dots> = 1 / 4 * (\<Sum>u<(8 :: nat). if u = 0 then d / 2 else 0)"
    by (simp only: inner)
  also have "\<dots> = d / 8" by (simp only: sum.delta finite_lessThan) simp
  finally show ?thesis .
qed

lemma dc_64_block_samples:
  "reconstruct_block (replicate 64 1) (64 # replicate 63 0) = Inr (replicate 64 136)"
proof -
  have m: "Mult (64 # replicate 63 0) (replicate 64 1) = Inr (64 # replicate 63 0)"
    by code_simp
  have r: "Rationing_sample 8 = 136" by (simp add: Rationing_sample_def)
  show ?thesis by (simp add: reconstruct_block_def m IDCT_block_dc_64 r)
qed

text \<open>
  Claim C8, as the code has it. The block whose DC coefficient is 64 and whose AC
  coefficients are 0, dequantized with the all-ones table, scaled, transformed, rounded,
  shifted by 128 and clamped, is the uniform block of the sample value 136, and the
  pixel of a grayscale sample 136 is RGB(136, 136, 136). The scaled DC coefficient is
  \<open>64 / 16 * sqrt 2 * sqrt 2 = 8\<close> and the transform of a block with only this entry is
  constant, so every sample is \<open>8 + 128\<close>. The sum \<open>s(y, x)\<close> of the specification gives
  the same value \<open>64 / 8 = 8\<close> at every position. In a grayscale image with one block
  the pixel at a position is the colour conversion of the sample at that position.
\<close>

theorem reconstruct_block_dc_64:
  "reconstruct_block (replicate 64 1) (64 # replicate 63 0) = Inr (replicate 64 136) \<and>
   YCbCrToRGB [136] = Inr \<lparr>rgb_r = 136, rgb_g = 136, rgb_b = 136\<rparr> \<and>
   jpeg_idct_sample (\<lambda>v u. if v = 0 \<and> u = 0 then 64 else 0) y x = 8"
proof -
  have "YCbCrToRGB [136] = Inr \<lparr>rgb_r = 136, rgb_g = 136, rgb_b = 136\<rparr>"
    by (simp add: YCbCrToRGB_def clamp8_def drop_bit_eq_div push_bit_eq_mult)
  moreover have "jpeg_idct_sample (\<lambda>v u. if v = 0 \<and> u = 0 then 64 else 0) y x = 8"
    by (simp add: jpeg_idct_sample_dc)
  ultimately show ?thesis using dc_64_block_samples by simp
qed

text \<open>
  Claim C8, as stated, fails: the reconstructed block is not the uniform block of the
  sample value 192.
\<close>

theorem reconstruct_block_dc_64_is_not_192:
  "reconstruct_block (replicate 64 1) (64 # replicate 63 0) \<noteq> Inr (replicate 64 192)"
  by (simp add: dc_64_block_samples)

end
